theory Spec2Isabelle
  imports Main "HOL-Library.Sublist"
begin

section \<open>Python values, exceptions and the state of the notebook kernel\<close>

text \<open>
  The repository is two Jupyter notebooks, \<^verbatim>\<open>QnA_Mahabharata_Dense.ipynb\<close> and
  \<^verbatim>\<open>QnA_Mahabharata_Sparse.ipynb\<close>. Their Python cells only sequence calls into the
  Haystack library. The library itself is not part of the repository, so it is a
  parameter of every definition below: a function from the name of the callable, the
  positional arguments, the keyword arguments and the world (the file system, the
  databases, the objects the library keeps in memory) to an outcome and a new world.
  Nothing is assumed about it unless a theorem says so in a hypothesis.

  The shell cells (\<^verbatim>\<open>%%bash pip install ...\<close>, \<^verbatim>\<open>pip list | grep ...\<close>) are not Python
  and are not modelled.
\<close>

datatype pyval =
    PNone
  | PBool bool
  | PInt int
  | PStr string
  | PList "pyval list"
  | PDict "(string \<times> pyval) list"
  | PFun string
  | PObj nat

text \<open>
  \<open>PFun\<close> is an imported function used as a value (\<^verbatim>\<open>clean_func=clean_wiki_text\<close>);
  \<open>PObj\<close> is a reference to an object the library made.
\<close>

datatype exn =
    AssertionError
  | NameError string
  | TypeError
  | Raised string

text \<open>\<open>Raised\<close> stands for any exception class of the library, with its text.\<close>

record 'w event =
  ev_fn :: string
  ev_args :: "pyval list"
  ev_kwargs :: "(string \<times> pyval) list"
  ev_world :: 'w
  ev_result :: "exn + pyval"
  ev_after :: 'w

type_synonym 'w library =
  "string \<Rightarrow> pyval list \<Rightarrow> (string \<times> pyval) list \<Rightarrow> 'w \<Rightarrow> (exn + pyval) \<times> 'w"

text \<open>
  The kernel holds the notebook's global variables and the world. \<open>trace\<close> is a ghost
  field: the library calls made so far, each with the world it was made in and what it
  gave back. A raised exception leaves the kernel as it was at that point, as Jupyter
  does.
\<close>

record 'w kernel =
  globals :: "string \<rightharpoonup> pyval"
  world :: 'w
  trace :: "'w event list"

text \<open>
  A piece of Python is a function from the kernel to an outcome (\<open>Inl\<close> the exception
  raised, \<open>Inr\<close> the value) and the kernel it leaves. An expression gives a Python value,
  a statement gives nothing.
\<close>

type_synonym ('a, 'w) py = "'w kernel \<Rightarrow> (exn + 'a) \<times> 'w kernel"

type_synonym 'w expr = "(pyval, 'w) py"

type_synonym 'w stmt = "(unit, 'w) py"

definition ret :: "'a \<Rightarrow> ('a, 'w) py" where
  "ret v k = (Inr v, k)"

definition raise :: "exn \<Rightarrow> ('a, 'w) py" where
  "raise x k = (Inl x, k)"

text \<open>Sequencing: an exception ends the computation, nothing catches it.\<close>

definition bind :: "('a, 'w) py \<Rightarrow> ('a \<Rightarrow> ('b, 'w) py) \<Rightarrow> ('b, 'w) py" where
  "bind m f k = (case m k of (Inl x, k1) \<Rightarrow> (Inl x, k1) | (Inr v, k1) \<Rightarrow> f v k1)"

subsection \<open>Expressions\<close>

definition lit :: "pyval \<Rightarrow> 'w expr" where
  "lit v = ret v"

definition var :: "string \<Rightarrow> 'w expr" where
  "var x k = (case globals k x of None \<Rightarrow> raise (NameError x) k | Some v \<Rightarrow> ret v k)"

text \<open>Python evaluates arguments left to right and stops at the first exception.\<close>

fun eval_args :: "'w expr list \<Rightarrow> (pyval list, 'w) py" where
  "eval_args [] = ret []"
| "eval_args (e # es) = bind e (\<lambda>v. bind (eval_args es) (\<lambda>vs. ret (v # vs)))"

fun eval_kwargs :: "(string \<times> 'w expr) list \<Rightarrow> ((string \<times> pyval) list, 'w) py" where
  "eval_kwargs [] = ret []"
| "eval_kwargs ((n, e) # es) = bind e (\<lambda>v. bind (eval_kwargs es) (\<lambda>vs. ret ((n, v) # vs)))"

text \<open>
  The one place where the library runs: the call is made in the current world, the world
  it leaves becomes the current one, and the call is added to the trace.
\<close>

definition invoke ::
  "'w library \<Rightarrow> string \<Rightarrow> pyval list \<Rightarrow> (string \<times> pyval) list \<Rightarrow> 'w expr" where
  "invoke lib f args kwargs k =
     (case lib f args kwargs (world k) of
        (r, w) \<Rightarrow>
          (r, k\<lparr>world := w,
                 trace := trace k @
                   [\<lparr>ev_fn = f, ev_args = args, ev_kwargs = kwargs,
                     ev_world = world k, ev_result = r, ev_after = w\<rparr>]\<rparr>))"

definition call ::
  "'w library \<Rightarrow> string \<Rightarrow> 'w expr list \<Rightarrow> (string \<times> 'w expr) list \<Rightarrow> 'w expr" where
  "call lib f args kwargs =
     bind (eval_args args) (\<lambda>vs. bind (eval_kwargs kwargs) (\<lambda>kvs. invoke lib f vs kvs))"

text \<open>\<^verbatim>\<open>obj.m(a, ...)\<close>: the receiver is evaluated first and is the first argument.\<close>

definition call_method ::
  "'w library \<Rightarrow> 'w expr \<Rightarrow> string \<Rightarrow> 'w expr list \<Rightarrow> (string \<times> 'w expr) list \<Rightarrow> 'w expr" where
  "call_method lib recv m args kwargs = call lib m (recv # args) kwargs"

text \<open>\<^verbatim>\<open>obj.a\<close>: reading an attribute of a library object is up to the library.\<close>

definition attr :: "'w library \<Rightarrow> 'w expr \<Rightarrow> string \<Rightarrow> 'w expr" where
  "attr lib e a = call lib ''getattr'' [e, lit (PStr a)] []"

definition binop :: "(pyval \<Rightarrow> pyval \<Rightarrow> exn + pyval) \<Rightarrow> 'w expr \<Rightarrow> 'w expr \<Rightarrow> 'w expr" where
  "binop f e1 e2 =
     bind e1 (\<lambda>a. bind e2 (\<lambda>b. case f a b of Inl x \<Rightarrow> raise x | Inr v \<Rightarrow> ret v))"

fun py_add :: "pyval \<Rightarrow> pyval \<Rightarrow> exn + pyval" where
  "py_add (PStr a) (PStr b) = Inr (PStr (a @ b))"
| "py_add (PInt a) (PInt b) = Inr (PInt (a + b))"
| "py_add (PList a) (PList b) = Inr (PList (a @ b))"
| "py_add _ _ = Inl TypeError"

definition add :: "'w expr \<Rightarrow> 'w expr \<Rightarrow> 'w expr" where
  "add = binop py_add"

text \<open>
  \<^verbatim>\<open>e1 == e2\<close>. The notebooks compare only with a string literal, where Python's
  equality is equality of the characters and anything that is not a string differs.
\<close>

definition py_eq :: "pyval \<Rightarrow> pyval \<Rightarrow> exn + pyval" where
  "py_eq a b = Inr (PBool (a = b))"

definition equals :: "'w expr \<Rightarrow> 'w expr \<Rightarrow> 'w expr" where
  "equals = binop py_eq"

definition list_lit :: "'w expr list \<Rightarrow> 'w expr" where
  "list_lit es = bind (eval_args es) (\<lambda>vs. ret (PList vs))"

definition dict_lit :: "(string \<times> 'w expr) list \<Rightarrow> 'w expr" where
  "dict_lit es = bind (eval_kwargs es) (\<lambda>kvs. ret (PDict kvs))"

subsection \<open>Statements\<close>

definition set_global :: "string \<Rightarrow> pyval \<Rightarrow> 'w stmt" where
  "set_global x v k = (Inr (), k\<lparr>globals := (globals k)(x \<mapsto> v)\<rparr>)"

definition assign :: "string \<Rightarrow> 'w expr \<Rightarrow> 'w stmt" where
  "assign x e = bind e (set_global x)"

definition expr_stmt :: "'w expr \<Rightarrow> 'w stmt" where
  "expr_stmt e = bind e (\<lambda>v. ret ())"

fun truthy :: "pyval \<Rightarrow> bool" where
  "truthy PNone = False"
| "truthy (PBool b) = b"
| "truthy (PInt i) = (i \<noteq> 0)"
| "truthy (PStr s) = (s \<noteq> [])"
| "truthy (PList vs) = (vs \<noteq> [])"
| "truthy (PDict kvs) = (kvs \<noteq> [])"
| "truthy (PFun f) = True"
| "truthy (PObj r) = True"

definition assert_stmt :: "'w expr \<Rightarrow> 'w stmt" where
  "assert_stmt e = bind e (\<lambda>v. if truthy v then ret () else raise AssertionError)"

text \<open>
  \<^verbatim>\<open>import m\<close> and \<^verbatim>\<open>from m import a, b\<close> run the module, which is the library's
  business and can fail. The names they bind are the names \<open>call\<close> hands to the library.
\<close>

definition import_stmt :: "'w library \<Rightarrow> string \<Rightarrow> string list \<Rightarrow> 'w stmt" where
  "import_stmt lib m names =
     expr_stmt (invoke lib ''import'' [PStr m, PList (map PStr names)] [])"

text \<open>Statements of a cell, and cells under Run All, run in order up to the first exception.\<close>

fun block :: "'w stmt list \<Rightarrow> 'w stmt" where
  "block [] = ret ()"
| "block (c # cs) = bind c (\<lambda>u. block cs)"

section \<open>The dense notebook, \<^verbatim>\<open>QnA_Mahabharata_Dense.ipynb\<close>\<close>

text \<open>
  One definition per Python cell, numbered as the cells are in the file (from 0, markdown
  and shell cells included). \<^verbatim>\<open>logging.WARNING\<close> and \<^verbatim>\<open>logging.INFO\<close> are the constants
  30 and 20 of Python's logging module.
\<close>

definition dense_cell_5 :: "'w library \<Rightarrow> 'w stmt" where
  "dense_cell_5 lib = block
     [import_stmt lib ''logging'' [],
      expr_stmt (call lib ''logging.basicConfig'' []
        [(''format'', lit (PStr ''%(levelname)s - %(name)s -  %(message)s'')),
         (''level'', lit (PInt 30))]),
      expr_stmt (call_method lib (call lib ''logging.getLogger'' [lit (PStr ''haystack'')] [])
        ''setLevel'' [lit (PInt 20)] [])]"

text \<open>Create a new document store.\<close>

definition dense_cell_16 :: "'w library \<Rightarrow> 'w stmt" where
  "dense_cell_16 lib = block
     [import_stmt lib ''faiss'' [],
      import_stmt lib ''haystack.document_stores'' [''FAISSDocumentStore''],
      assign ''sql_url'' (lit (PStr ''sqlite:///mahabharata.db'')),
      assign ''sqlite_document_store'' (call lib ''FAISSDocumentStore'' []
        [(''sql_url'', var ''sql_url''),
         (''faiss_index_factory_str'', lit (PStr ''Flat'')),
         (''return_embedding'', lit (PBool True))])]"

definition dense_cell_18 :: "'w stmt" where
  "dense_cell_18 = block [assign ''doc_dir'' (lit (PStr ''data/Mahabharata''))]"

text \<open>Convert the raw text files to documents.\<close>

definition dense_cell_20 :: "'w library \<Rightarrow> 'w stmt" where
  "dense_cell_20 lib = block
     [import_stmt lib ''haystack.utils'' [''clean_wiki_text'', ''convert_files_to_docs''],
      assign ''files_to_docs'' (call lib ''convert_files_to_docs'' []
        [(''dir_path'', var ''doc_dir''),
         (''clean_func'', lit (PFun ''clean_wiki_text'')),
         (''split_paragraphs'', lit (PBool True))])]"

text \<open>Split the raw documents with a PreProcessor.\<close>

definition dense_preprocessor_kwargs :: "(string \<times> pyval) list" where
  "dense_preprocessor_kwargs =
     [(''clean_empty_lines'', PBool True),
      (''clean_whitespace'', PBool True),
      (''clean_header_footer'', PBool True),
      (''split_by'', PStr ''word''),
      (''split_length'', PInt 100),
      (''split_respect_sentence_boundary'', PBool True),
      (''split_overlap'', PInt 0)]"

definition dense_cell_22 :: "'w library \<Rightarrow> 'w stmt" where
  "dense_cell_22 lib = block
     [import_stmt lib ''haystack.nodes'' [''PreProcessor''],
      assign ''processor'' (call lib ''PreProcessor'' []
        (map (\<lambda>(n, v). (n, lit v)) dense_preprocessor_kwargs)),
      assign ''docs'' (call_method lib (var ''processor'') ''process'' [var ''files_to_docs''] [])]"

text \<open>Save the processed documents to the document store.\<close>

definition dense_cell_24 :: "'w library \<Rightarrow> 'w stmt" where
  "dense_cell_24 lib = block
     [expr_stmt (call_method lib (var ''sqlite_document_store'') ''write_documents''
        [var ''docs''] [])]"

definition embedding_retriever :: "'w library \<Rightarrow> 'w stmt" where
  "embedding_retriever lib =
     assign ''retriever'' (call lib ''EmbeddingRetriever'' []
       [(''document_store'', var ''sqlite_document_store''),
        (''embedding_model'', lit (PStr ''sentence-transformers/multi-qa-mpnet-base-dot-v1''))])"

definition dense_cell_26 :: "'w library \<Rightarrow> 'w stmt" where
  "dense_cell_26 lib = block
     [import_stmt lib ''haystack.nodes'' [''EmbeddingRetriever''],
      embedding_retriever lib]"

text \<open>Update the embeddings of the previously indexed documents.\<close>

definition dense_cell_28 :: "'w library \<Rightarrow> 'w stmt" where
  "dense_cell_28 lib = block
     [expr_stmt (call_method lib (var ''sqlite_document_store'') ''update_embeddings''
        [var ''retriever''] [])]"

text \<open>Save the FAISS index.\<close>

definition dense_cell_30 :: "'w library \<Rightarrow> 'w stmt" where
  "dense_cell_30 lib = block
     [expr_stmt (call_method lib (var ''sqlite_document_store'') ''save''
        [lit (PStr ''mahabharata_faiss'')] [])]"

text \<open>Re-run with an existing document store.\<close>

definition dense_cell_32 :: "'w library \<Rightarrow> 'w stmt" where
  "dense_cell_32 lib = block
     [import_stmt lib ''haystack.document_stores'' [''FAISSDocumentStore''],
      import_stmt lib ''haystack.nodes'' [''EmbeddingRetriever''],
      assign ''sqlite_document_store'' (call lib ''FAISSDocumentStore.load'' []
        [(''index_path'', lit (PStr ''mahabharata_faiss'')),
         (''config_path'', lit (PStr ''mahabharata_faiss.json''))]),
      assert_stmt (equals (attr lib (var ''sqlite_document_store'') ''faiss_index_factory_str'')
        (lit (PStr ''Flat''))),
      embedding_retriever lib]"

text \<open>The reader, the pipeline, the question and the printing are the same in both notebooks.\<close>

definition farm_reader :: "'w library \<Rightarrow> 'w stmt" where
  "farm_reader lib = block
     [import_stmt lib ''haystack.nodes'' [''FARMReader''],
      assign ''reader'' (call lib ''FARMReader'' []
        [(''model_name_or_path'', lit (PStr ''deepset/roberta-base-squad2'')),
         (''use_gpu'', lit (PBool True))])]"

definition extractive_qa_pipeline :: "'w library \<Rightarrow> 'w stmt" where
  "extractive_qa_pipeline lib = block
     [import_stmt lib ''haystack.pipelines'' [''ExtractiveQAPipeline''],
      assign ''pipe'' (call lib ''ExtractiveQAPipeline'' [var ''reader'', var ''retriever''] [])]"

text \<open>
  The question is the one literal of the cell the user edits (the other questions of the
  source are commented out), so it is a parameter here.
\<close>

definition run_params :: "pyval" where
  "run_params =
     PDict [(''Retriever'', PDict [(''top_k'', PInt 10)]),
            (''Reader'', PDict [(''top_k'', PInt 2)])]"

definition ask :: "'w library \<Rightarrow> string \<Rightarrow> 'w stmt" where
  "ask lib q = block
     [assign ''prediction'' (call_method lib (var ''pipe'') ''run'' []
        [(''query'', lit (PStr q)),
         (''params'', dict_lit
            [(''Retriever'', dict_lit [(''top_k'', lit (PInt 10))]),
             (''Reader'', dict_lit [(''top_k'', lit (PInt 2))])])])]"

definition print_answers :: "'w library \<Rightarrow> 'w stmt" where
  "print_answers lib = block
     [import_stmt lib ''haystack.utils'' [''print_answers''],
      expr_stmt (call lib ''print_answers'' [var ''prediction'']
        [(''details'', lit (PStr ''medium''))])]"

definition dense_cell_34 :: "'w library \<Rightarrow> 'w stmt" where
  "dense_cell_34 lib = farm_reader lib"

definition dense_cell_36 :: "'w library \<Rightarrow> 'w stmt" where
  "dense_cell_36 lib = extractive_qa_pipeline lib"

definition dense_cell_38 :: "'w library \<Rightarrow> string \<Rightarrow> 'w stmt" where
  "dense_cell_38 lib q = ask lib q"

definition dense_cell_40 :: "'w library \<Rightarrow> 'w stmt" where
  "dense_cell_40 lib = print_answers lib"

text \<open>
  The cells that build the store, the cells that query it, and the notebook's two ways
  through them: a first run (cell 32 skipped, as its text says) and a later run that
  loads what the first one saved.
\<close>

definition dense_build :: "'w library \<Rightarrow> 'w stmt list" where
  "dense_build lib =
     [dense_cell_16 lib, dense_cell_18, dense_cell_20 lib, dense_cell_22 lib,
      dense_cell_24 lib, dense_cell_26 lib, dense_cell_28 lib, dense_cell_30 lib]"

definition dense_query :: "'w library \<Rightarrow> string \<Rightarrow> 'w stmt list" where
  "dense_query lib q =
     [dense_cell_34 lib, dense_cell_36 lib, dense_cell_38 lib q, dense_cell_40 lib]"

definition dense_first_run :: "'w library \<Rightarrow> string \<Rightarrow> 'w stmt list" where
  "dense_first_run lib q = dense_cell_5 lib # dense_build lib @ dense_query lib q"

definition dense_rerun :: "'w library \<Rightarrow> string \<Rightarrow> 'w stmt list" where
  "dense_rerun lib q = dense_cell_5 lib # dense_cell_32 lib # dense_query lib q"

definition dense_cells :: "'w library \<Rightarrow> string \<Rightarrow> 'w stmt list" where
  "dense_cells lib q =
     dense_cell_5 lib # dense_build lib @ dense_cell_32 lib # dense_query lib q"

section \<open>The sparse notebook, \<^verbatim>\<open>QnA_Mahabharata_Sparse.ipynb\<close>\<close>

definition sparse_cell_4 :: "'w library \<Rightarrow> 'w stmt" where
  "sparse_cell_4 lib = dense_cell_5 lib"

definition sparse_cell_6 :: "'w library \<Rightarrow> 'w stmt" where
  "sparse_cell_6 lib = block
     [import_stmt lib ''haystack.document_stores'' [''InMemoryDocumentStore''],
      assign ''in_memory_document_store'' (call lib ''InMemoryDocumentStore'' []
        [(''use_bm25'', lit (PBool True))])]"

definition sparse_cell_9 :: "'w stmt" where
  "sparse_cell_9 = block [assign ''doc_dir'' (lit (PStr ''data/Mahabharata''))]"

definition sparse_preprocessor_kwargs :: "(string \<times> pyval) list" where
  "sparse_preprocessor_kwargs =
     [(''clean_empty_lines'', PBool True),
      (''clean_whitespace'', PBool True),
      (''clean_header_footer'', PBool False),
      (''split_by'', PStr ''word''),
      (''split_overlap'', PInt 50),
      (''split_length'', PInt 500),
      (''split_respect_sentence_boundary'', PBool False)]"

definition sparse_cell_11 :: "'w library \<Rightarrow> 'w stmt" where
  "sparse_cell_11 lib = block
     [import_stmt lib ''os'' [],
      import_stmt lib ''haystack.pipelines.standard_pipelines'' [''TextIndexingPipeline''],
      import_stmt lib ''haystack.nodes'' [''PreProcessor''],
      assign ''files_to_index''
        (list_lit [add (var ''doc_dir'') (lit (PStr ''/1-18 books combined.txt''))]),
      assign ''indexing_pipeline'' (call lib ''TextIndexingPipeline''
        [var ''in_memory_document_store'']
        [(''preprocessor'', call lib ''PreProcessor'' []
            (map (\<lambda>(n, v). (n, lit v)) sparse_preprocessor_kwargs))]),
      expr_stmt (call_method lib (var ''indexing_pipeline'') ''run_batch'' []
        [(''file_paths'', var ''files_to_index'')])]"

definition sparse_cell_14 :: "'w library \<Rightarrow> 'w stmt" where
  "sparse_cell_14 lib = block
     [import_stmt lib ''haystack.nodes'' [''BM25Retriever''],
      assign ''retriever'' (call lib ''BM25Retriever'' []
        [(''document_store'', var ''in_memory_document_store'')])]"

definition sparse_cell_17 :: "'w library \<Rightarrow> 'w stmt" where
  "sparse_cell_17 lib = farm_reader lib"

definition sparse_cell_20 :: "'w library \<Rightarrow> 'w stmt" where
  "sparse_cell_20 lib = extractive_qa_pipeline lib"

definition sparse_cell_23 :: "'w library \<Rightarrow> string \<Rightarrow> 'w stmt" where
  "sparse_cell_23 lib q = ask lib q"

definition sparse_cell_25 :: "'w library \<Rightarrow> 'w stmt" where
  "sparse_cell_25 lib = block
     [import_stmt lib ''pprint'' [''pprint''],
      expr_stmt (call lib ''pprint'' [var ''prediction''] [])]"

definition sparse_cell_27 :: "'w library \<Rightarrow> 'w stmt" where
  "sparse_cell_27 lib = print_answers lib"

definition sparse_cells :: "'w library \<Rightarrow> string \<Rightarrow> 'w stmt list" where
  "sparse_cells lib q =
     [sparse_cell_4 lib, sparse_cell_6 lib, sparse_cell_9, sparse_cell_11 lib,
      sparse_cell_14 lib, sparse_cell_17 lib, sparse_cell_20 lib, sparse_cell_23 lib q,
      sparse_cell_25 lib, sparse_cell_27 lib]"

text \<open>A fresh kernel: no variable is bound and no call has been made.\<close>

definition fresh :: "'w \<Rightarrow> 'w kernel" where
  "fresh w = \<lparr>globals = Map.empty, world = w, trace = []\<rparr>"

section \<open>What a run leaves in the trace\<close>

text \<open>The calls made between two kernels of one run.\<close>

definition new_events :: "'w kernel \<Rightarrow> 'w kernel \<Rightarrow> 'w event list" where
  "new_events k k' = drop (length (trace k)) (trace k')"

text \<open>
  \<open>chain w evs w'\<close>: the calls \<open>evs\<close> lead from world \<open>w\<close> to world \<open>w'\<close>, each made in the
  world the one before left.
\<close>

fun chain :: "'w \<Rightarrow> 'w event list \<Rightarrow> 'w \<Rightarrow> bool" where
  "chain w [] w' = (w = w')"
| "chain w (e # es) w' = (ev_world e = w \<and> chain (ev_after e) es w')"

text \<open>
  \<open>unhandled r evs\<close>: a call of \<open>evs\<close> that raised is the last call made, and the outcome
  \<open>r\<close> of the run is the very exception it raised. So nothing was called after the
  failure (no retry, no recovery) and the exception was neither caught nor replaced.
\<close>

fun unhandled :: "exn + 'a \<Rightarrow> 'w event list \<Rightarrow> bool" where
  "unhandled r [] = True"
| "unhandled r (e # es) =
     (case ev_result e of Inl x \<Rightarrow> es = [] \<and> r = Inl x | Inr v \<Rightarrow> unhandled r es)"

text \<open>An event of the trace records what the library really answered.\<close>

definition genuine :: "'w library \<Rightarrow> 'w event \<Rightarrow> bool" where
  "genuine lib e =
     (lib (ev_fn e) (ev_args e) (ev_kwargs e) (ev_world e) = (ev_result e, ev_after e))"

text \<open>
  \<open>run_ok lib fs k r k'\<close>: going from \<open>k\<close> to \<open>k'\<close> with outcome \<open>r\<close> added calls of the
  callables \<open>fs\<close>, in this order, all of them when no exception was raised and the first
  few otherwise.
\<close>

definition run_ok ::
  "'w library \<Rightarrow> string list \<Rightarrow> 'w kernel \<Rightarrow> exn + 'a \<Rightarrow> 'w kernel \<Rightarrow> bool" where
  "run_ok lib fs k r k' =
     (\<exists>evs. trace k' = trace k @ evs \<and> chain (world k) evs (world k') \<and>
        unhandled r evs \<and> list_all (genuine lib) evs \<and>
        prefix (map ev_fn evs) fs \<and> (\<not> isl r \<longrightarrow> map ev_fn evs = fs))"

definition steps :: "'w library \<Rightarrow> ('a, 'w) py \<Rightarrow> string list \<Rightarrow> bool" where
  "steps lib c fs = (\<forall>k. run_ok lib fs k (fst (c k)) (snd (c k)))"


definition avoids :: "'w library \<Rightarrow> ('a, 'w) py \<Rightarrow> string set \<Rightarrow> bool" where
  "avoids lib c F = (\<exists>fs. steps lib c fs \<and> set fs \<inter> F = {})"

text \<open>
  A piece of code propagates failures when, from every kernel, a library call that
  raises ends it with that exception.
\<close>

definition propagates :: "('a, 'w) py \<Rightarrow> bool" where
  "propagates c = (\<forall>k. unhandled (fst (c k)) (new_events k (snd (c k))))"

text \<open>
  What the library promises for \<^verbatim>\<open>update_embeddings\<close>, as far as the notebook relies on it:
  \<open>all_embedded s w\<close> says that in the world \<open>w\<close> every Document written to the store \<open>s\<close>
  has an embedding vector in its index. The library embeds all when every call of
  \<^verbatim>\<open>store.update_embeddings(retriever)\<close> that returns leaves such a world.
\<close>

definition embeds_all :: "'w library \<Rightarrow> (pyval \<Rightarrow> 'w \<Rightarrow> bool) \<Rightarrow> bool" where
  "embeds_all lib all_embedded =
     (\<forall>s t w u w'. lib ''update_embeddings'' [s, t] [] w = (Inr u, w') \<longrightarrow> all_embedded s w')"

text \<open>
  What the library promises for the two \<^verbatim>\<open>top_k\<close> of a pipeline run, as far as the
  notebooks rely on it: \<open>handed v w\<close> is the number of Documents the retriever handed to the reader in
  the run that returned \<open>v\<close> and left the world \<open>w\<close>, \<open>answers v w\<close> the number of answers
  in \<open>v\<close>. The library honours \<^verbatim>\<open>top_k\<close> when neither exceeds the value it was given.
\<close>

definition honours_top_k ::
  "'w library \<Rightarrow> (pyval \<Rightarrow> 'w \<Rightarrow> nat) \<Rightarrow> (pyval \<Rightarrow> 'w \<Rightarrow> nat) \<Rightarrow> bool" where
  "honours_top_k lib handed answers =
     (\<forall>p q k1 k2 w v w'.
        lib ''run'' [p]
          [(''query'', q),
           (''params'', PDict [(''Retriever'', PDict [(''top_k'', PInt k1)]),
                               (''Reader'', PDict [(''top_k'', PInt k2)])])] w = (Inr v, w') \<longrightarrow>
        handed v w' \<le> nat k1 \<and> answers v w' \<le> nat k2)"






section \<open>A library to run the notebooks on\<close>

text \<open>
  A small stand-in for the library, used only to run the notebooks on concrete input.
  Its world counts the objects made, and keeps the documents written to the store and
  whether the embeddings are up to date.
\<close>

record toy_world =
  made :: nat
  stored :: "pyval list"
  embedded :: bool

definition toy_fresh :: "toy_world \<Rightarrow> (exn + pyval) \<times> toy_world" where
  "toy_fresh w = (Inr (PObj (made w)), w\<lparr>made := Suc (made w)\<rparr>)"

text \<open>
  Its pipeline reads the two \<^verbatim>\<open>top_k\<close> of \<^verbatim>\<open>params\<close>, retrieves that many of the stored
  documents and answers with that many of three stock answers.
\<close>

definition toy_top_k :: "(string \<times> pyval) list \<Rightarrow> string \<Rightarrow> nat" where
  "toy_top_k kwargs node =
     (case map_of kwargs ''params'' of
        Some (PDict ps) \<Rightarrow>
          (case map_of ps node of
             Some (PDict n) \<Rightarrow> (case map_of n ''top_k'' of Some (PInt i) \<Rightarrow> nat i | _ \<Rightarrow> 0)
           | _ \<Rightarrow> 0)
      | _ \<Rightarrow> 0)"

definition toy_prediction :: "(string \<times> pyval) list \<Rightarrow> toy_world \<Rightarrow> pyval" where
  "toy_prediction kwargs w =
     PDict
       [(''answers'', PList (take (toy_top_k kwargs ''Reader'')
           [PStr ''Krishna'', PStr ''the son of Devaki'', PStr ''Vasudeva''])),
        (''documents'', PList (take (toy_top_k kwargs ''Retriever'') (stored w)))]"

fun toy_count :: "string \<Rightarrow> pyval \<Rightarrow> nat" where
  "toy_count key (PDict kvs) = (case map_of kvs key of Some (PList xs) \<Rightarrow> length xs | _ \<Rightarrow> 0)"
| "toy_count key _ = 0"

definition toy :: "toy_world library" where
  "toy f args kwargs w =
     (if f = ''getattr'' then (Inr (PStr ''Flat''), w)
      else if f = ''update_embeddings'' then (Inr PNone, w\<lparr>embedded := True\<rparr>)
      else if f = ''write_documents'' then
        (Inr PNone, w\<lparr>stored := stored w @ tl args, embedded := False\<rparr>)
      else if f = ''run_batch'' then
        (Inr PNone, w\<lparr>stored := stored w @ map snd kwargs\<rparr>)
      else if f = ''run'' then (Inr (toy_prediction kwargs w), w)
      else toy_fresh w)"

text \<open>The same library with a model download that fails.\<close>

definition toy_offline :: "toy_world library" where
  "toy_offline f args kwargs w =
     (if f = ''update_embeddings'' then (Inl (Raised ''model download failed''), w)
      else toy f args kwargs w)"

text \<open>The same library with a store that was saved with another index factory.\<close>

definition toy_ivf :: "toy_world library" where
  "toy_ivf f args kwargs w =
     (if f = ''getattr'' then (Inr (PStr ''IVF256,Flat''), w) else toy f args kwargs w)"

definition toy_start :: "toy_world" where
  "toy_start = \<lparr>made = 0, stored = [], embedded = False\<rparr>"

text \<open>Both notebooks run on it from a fresh kernel.\<close>

definition dense_demo :: "toy_world kernel" where
  "dense_demo = snd (block (dense_cells toy ''Who is Krishna?'') (fresh toy_start))"

definition sparse_demo :: "toy_world kernel" where
  "sparse_demo = snd (block (sparse_cells toy ''Who is Krishna?'') (fresh toy_start))"

text \<open>The re-run path of the dense notebook, from a fresh kernel.\<close>

definition rerun_demo :: "toy_world library \<Rightarrow> toy_world kernel" where
  "rerun_demo lib = snd (block (dense_rerun lib ''Who is Krishna?'') (fresh toy_start))"





section \<open>Facts about every library\<close>

lemma chain_append: "chain w (xs @ ys) w' \<longleftrightarrow> (\<exists>m. chain w xs m \<and> chain m ys w')"
  by (induction xs arbitrary: w) auto

lemma unhandled_Inr_append:
  "unhandled (Inr v) xs \<Longrightarrow> unhandled r (xs @ ys) = unhandled r ys"
  by (induction xs) (auto split: sum.splits)

lemma unhandled_Inr_any: "unhandled (Inr v) xs \<Longrightarrow> unhandled r xs"
  by (induction xs) (auto split: sum.splits)

lemma unhandled_Inl_cong: "unhandled (Inl x :: exn + 'a) xs \<Longrightarrow> unhandled (Inl x :: exn + 'b) xs"
  by (induction xs) (auto split: sum.splits)

lemma run_ok_refl: "run_ok lib [] k (Inr v) k"
  by (simp add: run_ok_def)

lemma run_ok_weaken: "run_ok lib fs k (Inr v) k' \<Longrightarrow> run_ok lib fs k r k'"
  unfolding run_ok_def by (auto intro: unhandled_Inr_any)

lemma run_ok_globals: "run_ok lib fs k r k' \<Longrightarrow> run_ok lib fs k r (k'\<lparr>globals := g\<rparr>)"
  unfolding run_ok_def by simp

lemma run_ok_seq:
  assumes "run_ok lib fs1 k (Inr v) k1" and "run_ok lib fs2 k1 r k2"
  shows "run_ok lib (fs1 @ fs2) k r k2"
proof -
  from assms(1) obtain xs where xs: "trace k1 = trace k @ xs" "chain (world k) xs (world k1)"
    "unhandled (Inr v) xs" "list_all (genuine lib) xs" "map ev_fn xs = fs1"
    by (auto simp: run_ok_def)
  from assms(2) obtain ys where ys: "trace k2 = trace k1 @ ys" "chain (world k1) ys (world k2)"
    "unhandled r ys" "list_all (genuine lib) ys" "prefix (map ev_fn ys) fs2"
    "\<not> isl r \<longrightarrow> map ev_fn ys = fs2"
    by (auto simp: run_ok_def)
  have "trace k2 = trace k @ (xs @ ys)" using xs ys by simp
  moreover have "chain (world k) (xs @ ys) (world k2)"
    using xs(2) ys(2) by (auto simp: chain_append)
  moreover have "unhandled r (xs @ ys)" using xs(3) ys(3) by (simp add: unhandled_Inr_append)
  moreover have "list_all (genuine lib) (xs @ ys)" using xs ys by simp
  moreover have "prefix (map ev_fn (xs @ ys)) (fs1 @ fs2)" using xs ys by simp
  moreover have "\<not> isl r \<longrightarrow> map ev_fn (xs @ ys) = fs1 @ fs2" using xs ys by simp
  ultimately show ?thesis unfolding run_ok_def by (intro exI[of _ "xs @ ys"] conjI)
qed

lemma run_ok_stop:
  assumes "run_ok lib fs1 k (Inl x :: exn + 'a) k1"
  shows "run_ok lib (fs1 @ fs2) k (Inl x :: exn + 'b) k1"
  using assms unfolding run_ok_def
  by (auto intro: prefix_order.trans unhandled_Inl_cong)

lemma stepsD: "steps lib c fs \<Longrightarrow> c k = (r, k1) \<Longrightarrow> run_ok lib fs k r k1"
  unfolding steps_def by (metis fst_conv snd_conv)

lemma steps_ret: "steps lib (ret v) []"
  by (simp add: steps_def ret_def run_ok_refl)

lemma steps_raise: "steps lib (raise x) []"
  by (simp add: steps_def raise_def run_ok_def)

lemma steps_bind:
  assumes "steps lib m fs1" and "\<And>v. steps lib (f v) fs2"
  shows "steps lib (bind m f) (fs1 @ fs2)"
  unfolding steps_def
proof
  fix k
  obtain r1 k1 where a: "m k = (r1, k1)" by (cases "m k")
  note A = stepsD[OF assms(1) a]
  show "run_ok lib (fs1 @ fs2) k (fst (bind m f k)) (snd (bind m f k))"
  proof (cases r1)
    case (Inl x)
    then show ?thesis using A a by (simp add: bind_def run_ok_stop)
  next
    case (Inr v)
    obtain r2 k2 where b: "f v k1 = (r2, k2)" by (cases "f v k1")
    have "run_ok lib (fs1 @ fs2) k r2 k2"
      using A stepsD[OF assms(2) b] Inr by (auto intro: run_ok_seq)
    then show ?thesis using a b Inr by (simp add: bind_def)
  qed
qed

lemma steps_eq: "steps lib c fs' \<Longrightarrow> fs' = fs \<Longrightarrow> steps lib c fs"
  by simp

lemma steps_lit: "steps lib (lit v) []"
  by (simp add: lit_def steps_ret)

lemma steps_var: "steps lib (var x) []"
  by (simp add: steps_def var_def ret_def raise_def run_ok_def split: option.splits)

lemma steps_invoke: "steps lib (invoke lib f args kwargs) [f]"
  by (auto simp: steps_def invoke_def run_ok_def genuine_def split: prod.splits sum.splits)

lemma steps_set_global: "steps lib (set_global x v) []"
  by (simp add: steps_def set_global_def run_ok_def)

lemma steps_args_Nil: "steps lib (eval_args []) []"
  by (simp add: steps_ret)

lemma steps_args_Cons:
  "steps lib e fs1 \<Longrightarrow> steps lib (eval_args es) fs2 \<Longrightarrow> steps lib (eval_args (e # es)) (fs1 @ fs2)"
  apply (rule steps_eq)
   apply (simp only: eval_args.simps)
   apply (rule steps_bind)
    apply assumption
   apply (rule steps_bind)
    apply assumption
   apply (rule steps_ret)
  apply simp
  done

lemma steps_kwargs_Nil: "steps lib (eval_kwargs []) []"
  by (simp add: steps_ret)

lemma steps_kwargs_Cons:
  "steps lib e fs1 \<Longrightarrow> steps lib (eval_kwargs es) fs2 \<Longrightarrow>
   steps lib (eval_kwargs ((n, e) # es)) (fs1 @ fs2)"
  apply (rule steps_eq)
   apply (simp only: eval_kwargs.simps)
   apply (rule steps_bind)
    apply assumption
   apply (rule steps_bind)
    apply assumption
   apply (rule steps_ret)
  apply simp
  done

lemma steps_kwargs_lits: "steps lib (eval_kwargs (map (\<lambda>(n, v). (n, lit v)) kvs)) []"
proof (induction kvs)
  case Nil
  show ?case by (simp add: steps_ret)
next
  case (Cons a kvs)
  obtain n v where a: "a = (n, v)" by (cases a)
  show ?case using steps_kwargs_Cons[OF steps_lit Cons, of n v] by (simp add: a)
qed

lemma steps_call:
  "steps lib (eval_args args) fs1 \<Longrightarrow> steps lib (eval_kwargs kwargs) fs2 \<Longrightarrow>
   steps lib (call lib f args kwargs) (fs1 @ fs2 @ [f])"
  unfolding call_def by (intro steps_bind steps_invoke)

lemma steps_call_method:
  "steps lib recv fs0 \<Longrightarrow> steps lib (eval_args args) fs1 \<Longrightarrow> steps lib (eval_kwargs kwargs) fs2 \<Longrightarrow>
   steps lib (call_method lib recv m args kwargs) ((fs0 @ fs1) @ fs2 @ [m])"
  unfolding call_method_def by (intro steps_call steps_args_Cons)

lemma steps_attr:
  "steps lib e fs \<Longrightarrow> steps lib (attr lib e a) ((fs @ [] @ []) @ [] @ [''getattr''])"
  unfolding attr_def by (intro steps_call steps_args_Cons steps_args_Nil steps_kwargs_Nil steps_lit)

lemma steps_binop:
  "steps lib e1 fs1 \<Longrightarrow> steps lib e2 fs2 \<Longrightarrow> steps lib (binop f e1 e2) (fs1 @ fs2 @ [])"
  unfolding binop_def
  by (intro steps_bind) (auto intro: steps_raise steps_ret split: sum.splits)

lemma steps_add: "steps lib e1 fs1 \<Longrightarrow> steps lib e2 fs2 \<Longrightarrow> steps lib (add e1 e2) (fs1 @ fs2 @ [])"
  unfolding add_def by (rule steps_binop)

lemma steps_equals:
  "steps lib e1 fs1 \<Longrightarrow> steps lib e2 fs2 \<Longrightarrow> steps lib (equals e1 e2) (fs1 @ fs2 @ [])"
  unfolding equals_def by (rule steps_binop)

lemma steps_list_lit: "steps lib (eval_args es) fs \<Longrightarrow> steps lib (list_lit es) (fs @ [])"
  unfolding list_lit_def by (intro steps_bind steps_ret)

lemma steps_dict_lit: "steps lib (eval_kwargs es) fs \<Longrightarrow> steps lib (dict_lit es) (fs @ [])"
  unfolding dict_lit_def by (intro steps_bind steps_ret)

lemma steps_assign: "steps lib e fs \<Longrightarrow> steps lib (assign x e) (fs @ [])"
  unfolding assign_def by (intro steps_bind steps_set_global)

lemma steps_expr_stmt: "steps lib e fs \<Longrightarrow> steps lib (expr_stmt e) (fs @ [])"
  unfolding expr_stmt_def by (intro steps_bind steps_ret)

lemma steps_assert: "steps lib e fs \<Longrightarrow> steps lib (assert_stmt e) (fs @ [])"
  unfolding assert_stmt_def by (intro steps_bind) (auto intro: steps_raise steps_ret)

lemma steps_import: "steps lib (import_stmt lib m names) ([''import''] @ [])"
  unfolding import_stmt_def by (intro steps_expr_stmt steps_invoke)

lemma steps_block_Nil: "steps lib (block []) []"
  by (simp add: steps_ret)

lemma steps_block_Cons:
  "steps lib c fs1 \<Longrightarrow> steps lib (block cs) fs2 \<Longrightarrow> steps lib (block (c # cs)) (fs1 @ fs2)"
  by (simp only: block.simps, intro steps_bind)

lemmas steps_intros = steps_lit steps_var steps_invoke steps_args_Nil steps_args_Cons
  steps_kwargs_Nil steps_kwargs_Cons steps_kwargs_lits steps_call steps_call_method steps_attr
  steps_add steps_equals steps_list_lit steps_dict_lit steps_assign steps_expr_stmt steps_assert
  steps_import steps_block_Nil steps_block_Cons

lemma ret_eq [simp]: "ret v k = (r, k') \<longleftrightarrow> r = Inr v \<and> k' = k"
  by (auto simp: ret_def)

lemma raise_eq [simp]: "raise x k = (r, k') \<longleftrightarrow> r = Inl x \<and> k' = k"
  by (auto simp: raise_def)

lemma lit_eq [simp]: "lit v k = (r, k') \<longleftrightarrow> r = Inr v \<and> k' = k"
  by (auto simp: lit_def)

lemma var_eq [simp]:
  "var x k = (r, k') \<longleftrightarrow>
     k' = k \<and> r = (case globals k x of None \<Rightarrow> Inl (NameError x) | Some v \<Rightarrow> Inr v)"
  by (auto simp: var_def split: option.splits)

lemma set_global_eq [simp]:
  "set_global x v k = (r, k') \<longleftrightarrow> r = Inr () \<and> k' = k\<lparr>globals := (globals k)(x \<mapsto> v)\<rparr>"
  by (auto simp: set_global_def)

lemma invoke_eq [simp]:
  "invoke lib f a kw k = (r, k') \<longleftrightarrow>
     (\<exists>w. lib f a kw (world k) = (r, w) \<and>
        k' = k\<lparr>world := w, trace := trace k @
          [\<lparr>ev_fn = f, ev_args = a, ev_kwargs = kw, ev_world = world k,
            ev_result = r, ev_after = w\<rparr>]\<rparr>)"
  by (auto simp: invoke_def split: prod.splits)

lemma bind_eq:
  "bind m f k = (r, k') \<longleftrightarrow>
     (\<exists>x. m k = (Inl x, k') \<and> r = Inl x) \<or> (\<exists>u k1. m k = (Inr u, k1) \<and> f u k1 = (r, k'))"
  by (auto simp: bind_def split: prod.splits sum.splits)

lemma bind_eq_Inr [simp]:
  "bind m f k = (Inr v, k') \<longleftrightarrow> (\<exists>u k1. m k = (Inr u, k1) \<and> f u k1 = (Inr v, k'))"
  by (auto simp: bind_eq)

lemma kwargs_lits [simp]:
  "eval_kwargs (map (\<lambda>(n, v). (n, lit v)) kvs) k = (r, k') \<longleftrightarrow> r = Inr kvs \<and> k' = k"
proof (induction kvs arbitrary: r k')
  case Nil
  show ?case by auto
next
  case (Cons a kvs)
  obtain n v where a: "a = (n, v)" by (cases a)
  show ?case by (auto simp: a bind_eq Cons)
qed

lemmas unf = call_def call_method_def attr_def binop_def add_def equals_def list_lit_def dict_lit_def
  assign_def expr_stmt_def assert_stmt_def import_stmt_def



lemma run_ok_new_events:
  assumes "run_ok lib fs k r k'"
  shows "trace k' = trace k @ new_events k k'"
    and "chain (world k) (new_events k k') (world k')"
    and "unhandled r (new_events k k')"
    and "list_all (genuine lib) (new_events k k')"
    and "prefix (map ev_fn (new_events k k')) fs"
    and "\<not> isl r \<Longrightarrow> map ev_fn (new_events k k') = fs"
  using assms unfolding run_ok_def new_events_def by auto

lemma new_events_trans:
  assumes "trace k1 = trace k @ a" and "trace k2 = trace k1 @ b"
  shows "new_events k k2 = new_events k k1 @ new_events k1 k2"
  using assms by (simp add: new_events_def)

lemma new_events_self [simp]: "new_events k k = []"
  by (simp add: new_events_def)

lemma steps_names:
  assumes "steps lib c fs" and "c k = (r, k')" and "e \<in> set (new_events k k')"
  shows "ev_fn e \<in> set fs"
proof -
  have "prefix (map ev_fn (new_events k k')) fs"
    using run_ok_new_events(5)[OF stepsD[OF assms(1,2)]] .
  then have "set (map ev_fn (new_events k k')) \<subseteq> set fs" by (rule set_mono_prefix)
  then show ?thesis using assms(3) by auto
qed

lemma steps_grows:
  assumes "steps lib c fs" and "c k = (r, k')"
  shows "trace k' = trace k @ new_events k k'"
  using run_ok_new_events(1)[OF stepsD[OF assms]] .

lemma avoidsI: "steps lib c fs \<Longrightarrow> set fs \<inter> F = {} \<Longrightarrow> avoids lib c F"
  unfolding avoids_def by blast

lemma avoids_names:
  assumes "avoids lib c F" and "c k = (r, k')" and "e \<in> set (new_events k k')"
  shows "ev_fn e \<notin> F"
  using assms steps_names unfolding avoids_def by fastforce

lemma avoids_grows:
  assumes "avoids lib c F" and "c k = (r, k')"
  shows "trace k' = trace k @ new_events k k'"
  using assms steps_grows unfolding avoids_def by blast

lemma avoids_block:
  assumes "\<forall>c\<in>set cs. avoids lib c F"
  shows "avoids lib (block cs) F"
  using assms
proof (induction cs)
  case Nil
  show ?case by (rule avoidsI[OF steps_block_Nil]) simp
next
  case (Cons c cs)
  from Cons.prems obtain f1 where f1: "steps lib c f1" "set f1 \<inter> F = {}"
    unfolding avoids_def by auto
  from Cons obtain f2 where f2: "steps lib (block cs) f2" "set f2 \<inter> F = {}"
    unfolding avoids_def by auto
  show ?case
    by (rule avoidsI[OF steps_block_Cons[OF f1(1) f2(1)]]) (use f1 f2 in auto)
qed

lemma block_append: "block (xs @ ys) = bind (block xs) (\<lambda>u. block ys)"
proof (induction xs)
  case Nil
  show ?case by (rule ext) (simp add: bind_def ret_def)
next
  case (Cons c xs)
  show ?case by (rule ext) (simp add: Cons bind_def split: prod.splits sum.splits)
qed

lemma locate:
  assumes run: "block (xs @ ms @ ys) k = (r, k')"
    and xs: "\<forall>c\<in>set xs. avoids lib c {ev_fn e}"
    and ms: "\<forall>c\<in>set ms. avoids lib c {}"
    and ys: "\<forall>c\<in>set ys. avoids lib c {ev_fn e}"
    and e: "e \<in> set (new_events k k')"
  obtains k1 r1 k2 pre post where "block xs k = (Inr (), k1)" and "block ms k1 = (r1, k2)"
    and "e \<in> set (new_events k1 k2)" and "new_events k k' = pre @ new_events k1 k2 @ post"
    and "isl r1 \<Longrightarrow> r = r1 \<and> k' = k2 \<and> post = []"
    and "trace k1 = trace k @ pre"
    and "\<forall>x\<in>set pre. ev_fn x \<noteq> ev_fn e" and "\<forall>x\<in>set post. ev_fn x \<noteq> ev_fn e"
proof -
  note X = avoids_block[OF xs] and M = avoids_block[OF ms] and Y = avoids_block[OF ys]
  from run consider
      (a) x where "block xs k = (Inl x, k')" "r = Inl x"
    | (b) u k1 where "block xs k = (Inr u, k1)" "block (ms @ ys) k1 = (r, k')"
    by (auto simp: block_append[of xs] bind_eq)
  then show thesis
  proof cases
    case a
    then show ?thesis using avoids_names[OF X a(1) e] by simp
  next
    case b
    note g1 = avoids_grows[OF X b(1)]
    from b(2) consider
        (c) x where "block ms k1 = (Inl x, k')" "r = Inl x"
      | (d) u2 k2 where "block ms k1 = (Inr u2, k2)" "block ys k2 = (r, k')"
      by (auto simp: block_append[of ms] bind_eq)
    then show ?thesis
    proof cases
      case c
      note g2 = avoids_grows[OF M c(1)]
      have ne: "new_events k k' = new_events k k1 @ new_events k1 k'"
        using new_events_trans[OF g1 g2] .
      have "e \<notin> set (new_events k k1)" using avoids_names[OF X b(1)] by auto
      then have "e \<in> set (new_events k1 k')" using e ne by auto
      then show ?thesis
        using that[of k1 "Inl x" k' "new_events k k1" "[]"] b(1) c ne g1 avoids_names[OF X b(1)]
        by simp
    next
      case d
      note g2 = avoids_grows[OF M d(1)]
      note g3 = avoids_grows[OF Y d(2)]
      have g13: "trace k' = trace k1 @ (new_events k1 k2 @ new_events k2 k')"
        using g2 g3 by simp
      have ne: "new_events k k' = new_events k k1 @ new_events k1 k2 @ new_events k2 k'"
        using new_events_trans[OF g1 g13] new_events_trans[OF g2 g3] by simp
      have "e \<notin> set (new_events k k1)" using avoids_names[OF X b(1)] by auto
      moreover have "e \<notin> set (new_events k2 k')" using avoids_names[OF Y d(2)] by auto
      ultimately have "e \<in> set (new_events k1 k2)" using e ne by auto
      then show ?thesis
        using that[of k1 "Inr u2" k2 "new_events k k1" "new_events k2 k'"] b(1) d ne g1
          avoids_names[OF X b(1)] avoids_names[OF Y d(2)]
        by simp
    qed
  qed
qed

lemma steps_dense_cell_5: "steps lib (dense_cell_5 lib) [''import'', ''logging.basicConfig'', ''logging.getLogger'', ''setLevel'']"
  unfolding dense_cell_5_def
  by (rule steps_eq, (rule steps_intros)+, simp)

lemma steps_dense_cell_16: "steps lib (dense_cell_16 lib) [''import'', ''import'', ''FAISSDocumentStore'']"
  unfolding dense_cell_16_def
  by (rule steps_eq, (rule steps_intros)+, simp)

lemma steps_dense_cell_18: "steps lib (dense_cell_18) []"
  unfolding dense_cell_18_def
  by (rule steps_eq, (rule steps_intros)+, simp)

lemma steps_dense_cell_20: "steps lib (dense_cell_20 lib) [''import'', ''convert_files_to_docs'']"
  unfolding dense_cell_20_def
  by (rule steps_eq, (rule steps_intros)+, simp)

lemma steps_dense_cell_22: "steps lib (dense_cell_22 lib) [''import'', ''PreProcessor'', ''process'']"
  unfolding dense_cell_22_def
  by (rule steps_eq, (rule steps_intros)+, simp)

lemma steps_dense_cell_24: "steps lib (dense_cell_24 lib) [''write_documents'']"
  unfolding dense_cell_24_def
  by (rule steps_eq, (rule steps_intros)+, simp)

lemma steps_dense_cell_26: "steps lib (dense_cell_26 lib) [''import'', ''EmbeddingRetriever'']"
  unfolding dense_cell_26_def embedding_retriever_def
  by (rule steps_eq, (rule steps_intros)+, simp)

lemma steps_dense_cell_28: "steps lib (dense_cell_28 lib) [''update_embeddings'']"
  unfolding dense_cell_28_def
  by (rule steps_eq, (rule steps_intros)+, simp)

lemma steps_dense_cell_30: "steps lib (dense_cell_30 lib) [''save'']"
  unfolding dense_cell_30_def
  by (rule steps_eq, (rule steps_intros)+, simp)

lemma steps_dense_cell_32: "steps lib (dense_cell_32 lib) [''import'', ''import'', ''FAISSDocumentStore.load'', ''getattr'', ''EmbeddingRetriever'']"
  unfolding dense_cell_32_def embedding_retriever_def
  by (rule steps_eq, (rule steps_intros)+, simp)

lemma steps_dense_cell_34: "steps lib (dense_cell_34 lib) [''import'', ''FARMReader'']"
  unfolding dense_cell_34_def farm_reader_def
  by (rule steps_eq, (rule steps_intros)+, simp)

lemma steps_dense_cell_36: "steps lib (dense_cell_36 lib) [''import'', ''ExtractiveQAPipeline'']"
  unfolding dense_cell_36_def extractive_qa_pipeline_def
  by (rule steps_eq, (rule steps_intros)+, simp)

lemma steps_dense_cell_38: "steps lib (dense_cell_38 lib q) [''run'']"
  unfolding dense_cell_38_def ask_def
  by (rule steps_eq, (rule steps_intros)+, simp)

lemma steps_dense_cell_40: "steps lib (dense_cell_40 lib) [''import'', ''print_answers'']"
  unfolding dense_cell_40_def print_answers_def
  by (rule steps_eq, (rule steps_intros)+, simp)

lemma steps_sparse_cell_4: "steps lib (sparse_cell_4 lib) [''import'', ''logging.basicConfig'', ''logging.getLogger'', ''setLevel'']"
  unfolding sparse_cell_4_def dense_cell_5_def
  by (rule steps_eq, (rule steps_intros)+, simp)

lemma steps_sparse_cell_6: "steps lib (sparse_cell_6 lib) [''import'', ''InMemoryDocumentStore'']"
  unfolding sparse_cell_6_def
  by (rule steps_eq, (rule steps_intros)+, simp)

lemma steps_sparse_cell_9: "steps lib (sparse_cell_9) []"
  unfolding sparse_cell_9_def
  by (rule steps_eq, (rule steps_intros)+, simp)

lemma steps_sparse_cell_11: "steps lib (sparse_cell_11 lib) [''import'', ''import'', ''import'', ''PreProcessor'', ''TextIndexingPipeline'', ''run_batch'']"
  unfolding sparse_cell_11_def
  by (rule steps_eq, (rule steps_intros)+, simp)

lemma steps_sparse_cell_14: "steps lib (sparse_cell_14 lib) [''import'', ''BM25Retriever'']"
  unfolding sparse_cell_14_def
  by (rule steps_eq, (rule steps_intros)+, simp)

lemma steps_sparse_cell_17: "steps lib (sparse_cell_17 lib) [''import'', ''FARMReader'']"
  unfolding sparse_cell_17_def farm_reader_def
  by (rule steps_eq, (rule steps_intros)+, simp)

lemma steps_sparse_cell_20: "steps lib (sparse_cell_20 lib) [''import'', ''ExtractiveQAPipeline'']"
  unfolding sparse_cell_20_def extractive_qa_pipeline_def
  by (rule steps_eq, (rule steps_intros)+, simp)

lemma steps_sparse_cell_23: "steps lib (sparse_cell_23 lib q) [''run'']"
  unfolding sparse_cell_23_def ask_def
  by (rule steps_eq, (rule steps_intros)+, simp)

lemma steps_sparse_cell_25: "steps lib (sparse_cell_25 lib) [''import'', ''pprint'']"
  unfolding sparse_cell_25_def
  by (rule steps_eq, (rule steps_intros)+, simp)

lemma steps_sparse_cell_27: "steps lib (sparse_cell_27 lib) [''import'', ''print_answers'']"
  unfolding sparse_cell_27_def print_answers_def
  by (rule steps_eq, (rule steps_intros)+, simp)

lemmas cell_steps = steps_dense_cell_5 steps_dense_cell_16 steps_dense_cell_18 steps_dense_cell_20 steps_dense_cell_22 steps_dense_cell_24 steps_dense_cell_26 steps_dense_cell_28 steps_dense_cell_30 steps_dense_cell_32 steps_dense_cell_34 steps_dense_cell_36 steps_dense_cell_38 steps_dense_cell_40 steps_sparse_cell_4 steps_sparse_cell_6 steps_sparse_cell_9 steps_sparse_cell_11 steps_sparse_cell_14 steps_sparse_cell_17 steps_sparse_cell_20 steps_sparse_cell_23 steps_sparse_cell_25 steps_sparse_cell_27


text \<open>The definitions to unfold when a notebook is run on concrete input.\<close>

lemmas run_defs = dense_cells_def dense_first_run_def dense_rerun_def dense_build_def dense_query_def
  sparse_cells_def dense_cell_5_def dense_cell_16_def dense_cell_18_def dense_cell_20_def
  dense_cell_22_def dense_cell_24_def dense_cell_26_def dense_cell_28_def dense_cell_30_def
  dense_cell_32_def dense_cell_34_def dense_cell_36_def dense_cell_38_def dense_cell_40_def
  sparse_cell_4_def sparse_cell_6_def sparse_cell_9_def sparse_cell_11_def sparse_cell_14_def
  sparse_cell_17_def sparse_cell_20_def sparse_cell_23_def sparse_cell_25_def sparse_cell_27_def
  embedding_retriever_def farm_reader_def extractive_qa_pipeline_def ask_def print_answers_def
  dense_preprocessor_kwargs_def sparse_preprocessor_kwargs_def fresh_def
  call_def call_method_def attr_def binop_def add_def equals_def py_eq_def list_lit_def dict_lit_def
  assign_def expr_stmt_def assert_stmt_def import_stmt_def bind_def ret_def raise_def lit_def
  var_def set_global_def invoke_def toy_def toy_offline_def toy_fresh_def toy_start_def
  toy_prediction_def toy_top_k_def

lemma genuine_new_events:
  assumes "\<forall>c\<in>set cs. avoids lib c {}" and "block cs k = (r, k')" and "e \<in> set (new_events k k')"
  shows "genuine lib e"
proof -
  from avoids_block[OF assms(1)] obtain fs where "steps lib (block cs) fs"
    unfolding avoids_def by blast
  from run_ok_new_events(4)[OF stepsD[OF this assms(2)]] assms(3)
  show ?thesis by (simp add: list_all_iff)
qed

lemma new_events_fresh: "new_events (fresh w) k = trace k"
  by (simp add: new_events_def fresh_def)

lemma dense_cells_traced: "\<forall>c\<in>set (dense_cells lib q). avoids lib c {}"
  unfolding dense_cells_def dense_build_def dense_query_def
  by (simp, intro conjI; (rule avoidsI, rule cell_steps, simp))

lemma sparse_cells_traced: "\<forall>c\<in>set (sparse_cells lib q). avoids lib c {}"
  unfolding sparse_cells_def
  by (simp, intro conjI; (rule avoidsI, rule cell_steps, simp))

lemma dense_first_run_traced: "\<forall>c\<in>set (dense_first_run lib q). avoids lib c {}"
  unfolding dense_first_run_def dense_build_def dense_query_def
  by (simp, intro conjI; (rule avoidsI, rule cell_steps, simp))

lemma dense_rerun_traced: "\<forall>c\<in>set (dense_rerun lib q). avoids lib c {}"
  unfolding dense_rerun_def dense_query_def
  by (simp, intro conjI; (rule avoidsI, rule cell_steps, simp))

text \<open>Running a piece of code forwards, once the answers of the library are named.\<close>

lemmas exec = unf bind_def ret_def raise_def lit_def var_def set_global_def invoke_def py_eq_def

lemma no_call:
  assumes "e \<in> set evs" and "ev_fn e = f" and "filter (\<lambda>x. ev_fn x = f) evs = []"
  shows False
proof -
  have "e \<in> set (filter (\<lambda>x. ev_fn x = f) evs)" using assms(1,2) by simp
  then show ?thesis by (simp add: assms(3))
qed

lemma the_call:
  assumes "e \<in> set evs" and "ev_fn e = f" and "filter (\<lambda>x. ev_fn x = f) evs = [x]"
  shows "e = x"
proof -
  have "e \<in> set (filter (\<lambda>x. ev_fn x = f) evs)" using assms(1,2) by simp
  then show ?thesis by (simp add: assms(3))
qed

lemma block_flatten: "block (xs @ block ss # ys) = block (xs @ ss @ ys)"
proof -
  have "block (block ss # ys) = block (ss @ ys)" by (simp add: block_append)
  then show ?thesis by (simp add: block_append[of xs])
qed

lemma steps_embedding_retriever:
  "steps lib (embedding_retriever lib) [''EmbeddingRetriever'']"
  unfolding embedding_retriever_def
  by (rule steps_eq, (rule steps_intros)+, simp)

lemma block_single: "block [c] k = (r, k') \<longleftrightarrow> c k = (r, k')"
  by (cases "c k") (auto simp: bind_def ret_def split: sum.splits)

text \<open>The calls the two notebooks make on the stand-in library.\<close>

lemma dense_demo_names:
  "map ev_fn (trace dense_demo) =
     [''import'', ''logging.basicConfig'', ''logging.getLogger'', ''setLevel'',
      ''import'', ''import'', ''FAISSDocumentStore'', ''import'',
      ''convert_files_to_docs'', ''import'', ''PreProcessor'', ''process'',
      ''write_documents'', ''import'', ''EmbeddingRetriever'',
      ''update_embeddings'', ''save'', ''import'', ''import'',
      ''FAISSDocumentStore.load'', ''getattr'', ''EmbeddingRetriever'',
      ''import'', ''FARMReader'', ''import'', ''ExtractiveQAPipeline'', ''run'',
      ''import'', ''print_answers'']"
  by (simp add: dense_demo_def run_defs)

lemma sparse_demo_names:
  "map ev_fn (trace sparse_demo) =
     [''import'', ''logging.basicConfig'', ''logging.getLogger'', ''setLevel'',
      ''import'', ''InMemoryDocumentStore'', ''import'', ''import'', ''import'',
      ''PreProcessor'', ''TextIndexingPipeline'', ''run_batch'', ''import'',
      ''BM25Retriever'', ''import'', ''FARMReader'', ''import'',
      ''ExtractiveQAPipeline'', ''run'', ''import'', ''pprint'', ''import'',
      ''print_answers'']"
  by (simp add: sparse_demo_def run_defs)

lemma demo_event:
  assumes "map ev_fn (trace K) = names" and "n < length names"
  shows "trace K ! n \<in> set (new_events (fresh w) K)" and "ev_fn (trace K ! n) = names ! n"
proof -
  have len: "n < length (trace K)" using assms by (metis length_map)
  then show "trace K ! n \<in> set (new_events (fresh w) K)"
    by (simp add: new_events_fresh)
  show "ev_fn (trace K ! n) = names ! n" using len assms(1) by (metis nth_map)
qed

lemma dense_demo_block:
  "block (dense_cells toy ''Who is Krishna?'') (fresh toy_start) =
     (fst (block (dense_cells toy ''Who is Krishna?'') (fresh toy_start)), dense_demo)"
  by (simp add: dense_demo_def)

lemma sparse_demo_block:
  "block (sparse_cells toy ''Who is Krishna?'') (fresh toy_start) =
     (fst (block (sparse_cells toy ''Who is Krishna?'') (fresh toy_start)), sparse_demo)"
  by (simp add: sparse_demo_def)

section \<open>Where the written documents come from\<close>

text \<open>
  Dense notebook: the documents handed to \<^verbatim>\<open>write_documents\<close> are what \<^verbatim>\<open>process\<close> of
  the PreProcessor returned for what \<^verbatim>\<open>convert_files_to_docs\<close> returned.
\<close>

lemma prep_section_ok:
  assumes "block [dense_cell_18, dense_cell_20 lib, dense_cell_22 lib] k = (Inr u, k')"
  obtains files p d i1 cv i2 pp pr where
    "trace k' = trace k @ [i1, cv, i2, pp, pr]"
    and "globals k' ''docs'' = Some d"
    and "globals k' ''sqlite_document_store'' = globals k ''sqlite_document_store''"
    and "ev_fn cv = ''convert_files_to_docs''" and "ev_args cv = []"
    and "ev_kwargs cv = [(''dir_path'', PStr ''data/Mahabharata''),
          (''clean_func'', PFun ''clean_wiki_text''), (''split_paragraphs'', PBool True)]"
    and "ev_result cv = Inr files"
    and "ev_fn i2 = ''import''"
    and "ev_fn pp = ''PreProcessor''" and "ev_args pp = []"
    and "ev_kwargs pp = dense_preprocessor_kwargs" and "ev_result pp = Inr p"
    and "ev_fn pr = ''process''" and "ev_args pr = [p, files]" and "ev_kwargs pr = []"
    and "ev_result pr = Inr d"
  using assms
  unfolding dense_cell_18_def dense_cell_20_def dense_cell_22_def
  by (auto simp: unf split: option.splits)

lemma write_cell:
  assumes run: "dense_cell_24 lib k = (r, k')" and e: "e \<in> set (new_events k k')"
  obtains st d where "globals k ''sqlite_document_store'' = Some st"
    and "globals k ''docs'' = Some d"
    and "new_events k k' = [e]" and "ev_fn e = ''write_documents''"
    and "ev_args e = [st, d]" and "ev_kwargs e = []"
proof (cases "globals k ''sqlite_document_store''")
  case None
  from run[symmetric] have "trace k' = trace k" by (simp add: dense_cell_24_def exec None)
  then show ?thesis using e by (simp add: new_events_def)
next
  case st: (Some st)
  show ?thesis
  proof (cases "globals k ''docs''")
    case None
    from run[symmetric] have "trace k' = trace k" by (simp add: dense_cell_24_def exec st None)
    then show ?thesis using e by (simp add: new_events_def)
  next
    case (Some d)
    obtain r1 w1 where l1: "lib ''write_documents'' [st, d] [] (world k) = (r1, w1)"
      by fastforce
    let ?E = "\<lparr>ev_fn = ''write_documents'', ev_args = [st, d], ev_kwargs = [],
      ev_world = world k, ev_result = r1, ev_after = w1\<rparr>"
    from run[symmetric] have "trace k' = trace k @ [?E]"
      by (cases r1) (simp_all add: dense_cell_24_def exec st Some l1)
    then have ne: "new_events k k' = [?E]" by (simp add: new_events_def)
    then have "e = ?E" using e by simp
    then show ?thesis using that[of st d] st Some ne by simp
  qed
qed


lemma write_event:
  assumes cs: "cs = xs @ [dense_cell_18, dense_cell_20 lib, dense_cell_22 lib] @
      [dense_cell_24 lib] @ ys"
    and xs: "\<forall>c\<in>set xs. avoids lib c {''write_documents''}"
    and ys: "\<forall>c\<in>set ys. avoids lib c {''write_documents''}"
    and run: "block cs k = (r, k')" and e: "e \<in> set (new_events k k')"
    and f: "ev_fn e = ''write_documents''"
  obtains pre i1 cv i2 pp pr post files p d st where
    "new_events k k' = pre @ [i1, cv, i2, pp, pr, e] @ post"
    and "\<forall>x\<in>set pre \<union> set post. ev_fn x \<noteq> ''write_documents''"
    and "ev_fn cv = ''convert_files_to_docs''" and "ev_args cv = []"
    and "ev_kwargs cv = [(''dir_path'', PStr ''data/Mahabharata''),
          (''clean_func'', PFun ''clean_wiki_text''), (''split_paragraphs'', PBool True)]"
    and "ev_result cv = Inr files"
    and "ev_fn i2 = ''import''"
    and "ev_fn pp = ''PreProcessor''" and "ev_args pp = []"
    and "ev_kwargs pp = dense_preprocessor_kwargs" and "ev_result pp = Inr p"
    and "ev_fn pr = ''process''" and "ev_args pr = [p, files]" and "ev_kwargs pr = []"
    and "ev_result pr = Inr d"
    and "ev_args e = [st, d]" and "ev_kwargs e = []"
proof -
  let ?pr = "[dense_cell_18, dense_cell_20 lib, dense_cell_22 lib]"
  have run': "block ((xs @ ?pr) @ [dense_cell_24 lib] @ ys) k = (r, k')"
    using run by (simp add: cs)
  have pr: "\<forall>c\<in>set ?pr. avoids lib c {ev_fn e}"
    by (simp add: f, intro conjI; (rule avoidsI, rule cell_steps, simp))
  have xs': "\<forall>c\<in>set (xs @ ?pr). avoids lib c {ev_fn e}"
    using xs pr by (auto simp: f)
  have ys': "\<forall>c\<in>set ys. avoids lib c {ev_fn e}" using ys by (simp add: f)
  have ms: "\<forall>c\<in>set [dense_cell_24 lib]. avoids lib c {}"
    by (simp, (rule avoidsI, rule cell_steps, simp))
  show ?thesis
  proof (rule locate[OF run' xs' ms ys' e])
    fix k1 r1 k2 pre post
    assume pfx: "block (xs @ ?pr) k = (Inr (), k1)"
      and sec: "block [dense_cell_24 lib] k1 = (r1, k2)"
      and e': "e \<in> set (new_events k1 k2)"
      and ne: "new_events k k' = pre @ new_events k1 k2 @ post"
      and tr: "trace k1 = trace k @ pre"
      and npre: "\<forall>x\<in>set pre. ev_fn x \<noteq> ev_fn e"
      and npost: "\<forall>x\<in>set post. ev_fn x \<noteq> ev_fn e"
    from pfx obtain u ka where a: "block xs k = (Inr u, ka)" and b: "block ?pr ka = (Inr (), k1)"
      by (auto simp: block_append[of xs])
    note ga = avoids_grows[OF avoids_block[OF xs] a]
    from sec have c24: "dense_cell_24 lib k1 = (r1, k2)" by (simp only: block_single)
    show ?thesis
    proof (rule prep_section_ok[OF b])
      fix files p d i1 cv i2 pp pr
      assume t1: "trace k1 = trace ka @ [i1, cv, i2, pp, pr]"
        and d: "globals k1 ''docs'' = Some d"
        and cv: "ev_fn cv = ''convert_files_to_docs''" "ev_args cv = []"
          "ev_kwargs cv = [(''dir_path'', PStr ''data/Mahabharata''),
            (''clean_func'', PFun ''clean_wiki_text''), (''split_paragraphs'', PBool True)]"
          "ev_result cv = Inr files"
        and i2: "ev_fn i2 = ''import''"
        and pp: "ev_fn pp = ''PreProcessor''" "ev_args pp = []"
          "ev_kwargs pp = dense_preprocessor_kwargs" "ev_result pp = Inr p"
        and pr: "ev_fn pr = ''process''" "ev_args pr = [p, files]" "ev_kwargs pr = []"
          "ev_result pr = Inr d"
      have pre: "pre = new_events k ka @ [i1, cv, i2, pp, pr]"
        using tr t1 ga by simp
      show ?thesis
      proof (rule write_cell[OF c24 e'])
        fix st d'
        assume s1: "globals k1 ''docs'' = Some d'"
          and s2: "new_events k1 k2 = [e]"
          and s3: "ev_args e = [st, d']" "ev_kwargs e = []"
        have same: "d' = d" using s1 d by simp
        have 1: "new_events k k' = new_events k ka @ [i1, cv, i2, pp, pr, e] @ post"
          using ne pre s2 by simp
        have 2: "\<forall>x\<in>set (new_events k ka) \<union> set post. ev_fn x \<noteq> ''write_documents''"
          using npre npost pre f by auto
        show ?thesis
          by (rule that[OF 1 2 cv i2 pp pr]) (simp_all add: s3 same)
      qed
    qed
  qed
qed

text \<open>
  Sparse notebook: \<^verbatim>\<open>run_batch\<close> is called on the TextIndexingPipeline that was built on
  the store with the PreProcessor, for the one file of \<^verbatim>\<open>files_to_index\<close>.
\<close>

lemma index_section_a:
  assumes "block
     [sparse_cell_6 lib, sparse_cell_9,
      import_stmt lib ''os'' [],
      import_stmt lib ''haystack.pipelines.standard_pipelines'' [''TextIndexingPipeline''],
      import_stmt lib ''haystack.nodes'' [''PreProcessor'']] k = (Inr u, k')"
  obtains st i0 ds i1 i2 i3 where
    "trace k' = trace k @ [i0, ds, i1, i2, i3]"
    and "globals k' ''in_memory_document_store'' = Some st"
    and "globals k' ''doc_dir'' = Some (PStr ''data/Mahabharata'')"
    and "ev_fn ds = ''InMemoryDocumentStore''" and "ev_args ds = []"
    and "ev_kwargs ds = [(''use_bm25'', PBool True)]" and "ev_result ds = Inr st"
  using assms
  unfolding sparse_cell_6_def sparse_cell_9_def
  by (auto simp: unf split: option.splits)

lemma index_section_b:
  assumes "block
     [assign ''files_to_index''
        (list_lit [add (var ''doc_dir'') (lit (PStr ''/1-18 books combined.txt''))]),
      assign ''indexing_pipeline'' (call lib ''TextIndexingPipeline''
        [var ''in_memory_document_store'']
        [(''preprocessor'', call lib ''PreProcessor'' []
            (map (\<lambda>(n, v). (n, lit v)) sparse_preprocessor_kwargs))])] k = (Inr u, k')"
    and "globals k ''in_memory_document_store'' = Some st"
    and "globals k ''doc_dir'' = Some (PStr ''data/Mahabharata'')"
  obtains p ip pp tp where
    "trace k' = trace k @ [pp, tp]"
    and "globals k' ''indexing_pipeline'' = Some ip"
    and "globals k' ''files_to_index'' =
          Some (PList [PStr ''data/Mahabharata/1-18 books combined.txt''])"
    and "ev_fn pp = ''PreProcessor''" and "ev_args pp = []"
    and "ev_kwargs pp = sparse_preprocessor_kwargs" and "ev_result pp = Inr p"
    and "ev_fn tp = ''TextIndexingPipeline''" and "ev_args tp = [st]"
    and "ev_kwargs tp = [(''preprocessor'', p)]" and "ev_result tp = Inr ip"
  using assms
  by (auto simp: unf)

lemma run_batch_stmt:
  assumes run: "expr_stmt (call_method lib (var ''indexing_pipeline'') ''run_batch'' []
        [(''file_paths'', var ''files_to_index'')]) k = (r, k')"
    and e: "e \<in> set (new_events k k')"
  obtains ip fl where "globals k ''indexing_pipeline'' = Some ip"
    and "globals k ''files_to_index'' = Some fl"
    and "new_events k k' = [e]" and "ev_fn e = ''run_batch''"
    and "ev_args e = [ip]" and "ev_kwargs e = [(''file_paths'', fl)]"
proof (cases "globals k ''indexing_pipeline''")
  case None
  from run[symmetric] have "trace k' = trace k" by (simp add: exec None)
  then show ?thesis using e by (simp add: new_events_def)
next
  case ip: (Some ip)
  show ?thesis
  proof (cases "globals k ''files_to_index''")
    case None
    from run[symmetric] have "trace k' = trace k" by (simp add: exec ip None)
    then show ?thesis using e by (simp add: new_events_def)
  next
    case (Some fl)
    obtain r1 w1 where l1: "lib ''run_batch'' [ip] [(''file_paths'', fl)] (world k) = (r1, w1)"
      by fastforce
    let ?E = "\<lparr>ev_fn = ''run_batch'', ev_args = [ip], ev_kwargs = [(''file_paths'', fl)],
      ev_world = world k, ev_result = r1, ev_after = w1\<rparr>"
    from run[symmetric] have "trace k' = trace k @ [?E]"
      by (cases r1) (simp_all add: exec ip Some l1)
    then have ne: "new_events k k' = [?E]" by (simp add: new_events_def)
    then have "e = ?E" using e by simp
    then show ?thesis using that[of ip fl] ip Some ne by simp
  qed
qed


lemma index_event:
  assumes cs: "block cs = block (xs @ [sparse_cell_6 lib, sparse_cell_9] @ sparse_cell_11 lib # ys)"
    and xs: "\<forall>c\<in>set xs. avoids lib c {''run_batch''}"
    and ys: "\<forall>c\<in>set ys. avoids lib c {''run_batch''}"
    and run: "block cs k = (r, k')" and e: "e \<in> set (new_events k k')"
    and f: "ev_fn e = ''run_batch''"
  obtains pre ds mid pp tp post st p ip where
    "new_events k k' = pre @ ds # mid @ [pp, tp, e] @ post"
    and "\<forall>x\<in>set pre \<union> {ds} \<union> set mid \<union> {pp, tp} \<union> set post. ev_fn x \<noteq> ''run_batch''"
    and "ev_fn ds = ''InMemoryDocumentStore''" and "ev_args ds = []"
    and "ev_kwargs ds = [(''use_bm25'', PBool True)]" and "ev_result ds = Inr st"
    and "ev_fn pp = ''PreProcessor''" and "ev_args pp = []"
    and "ev_kwargs pp = sparse_preprocessor_kwargs" and "ev_result pp = Inr p"
    and "ev_fn tp = ''TextIndexingPipeline''" and "ev_args tp = [st]"
    and "ev_kwargs tp = [(''preprocessor'', p)]" and "ev_result tp = Inr ip"
    and "ev_args e = [ip]"
    and "ev_kwargs e = [(''file_paths'', PList [PStr ''data/Mahabharata/1-18 books combined.txt''])]"
proof -
  let ?a = "[sparse_cell_6 lib, sparse_cell_9,
      import_stmt lib ''os'' [],
      import_stmt lib ''haystack.pipelines.standard_pipelines'' [''TextIndexingPipeline''],
      import_stmt lib ''haystack.nodes'' [''PreProcessor'']]"
  let ?b = "[assign ''files_to_index''
        (list_lit [add (var ''doc_dir'') (lit (PStr ''/1-18 books combined.txt''))]),
      assign ''indexing_pipeline'' (call lib ''TextIndexingPipeline''
        [var ''in_memory_document_store'']
        [(''preprocessor'', call lib ''PreProcessor'' []
            (map (\<lambda>(n, v). (n, lit v)) sparse_preprocessor_kwargs))])]"
  let ?s = "expr_stmt (call_method lib (var ''indexing_pipeline'') ''run_batch'' []
        [(''file_paths'', var ''files_to_index'')])"
  have "block ((xs @ [sparse_cell_6 lib, sparse_cell_9]) @ sparse_cell_11 lib # ys) =
      block ((xs @ [sparse_cell_6 lib, sparse_cell_9]) @
        [import_stmt lib ''os'' [],
         import_stmt lib ''haystack.pipelines.standard_pipelines'' [''TextIndexingPipeline''],
         import_stmt lib ''haystack.nodes'' [''PreProcessor''],
         assign ''files_to_index''
           (list_lit [add (var ''doc_dir'') (lit (PStr ''/1-18 books combined.txt''))]),
         assign ''indexing_pipeline'' (call lib ''TextIndexingPipeline''
           [var ''in_memory_document_store'']
           [(''preprocessor'', call lib ''PreProcessor'' []
              (map (\<lambda>(n, v). (n, lit v)) sparse_preprocessor_kwargs))]), ?s] @ ys)"
    unfolding sparse_cell_11_def by (rule block_flatten)
  then have "block (xs @ [sparse_cell_6 lib, sparse_cell_9] @ sparse_cell_11 lib # ys) =
      block ((xs @ ?a @ ?b) @ [?s] @ ys)"
    by (simp only: append_assoc append.simps)
  then have run': "block ((xs @ ?a @ ?b) @ [?s] @ ys) k = (r, k')"
    using run cs by (simp only:)
  have ab: "\<forall>c\<in>set (?a @ ?b). avoids lib c {ev_fn e}"
    by (simp add: f, intro conjI;
        (rule avoidsI, (rule cell_steps steps_intros)+, simp))
  have xs': "\<forall>c\<in>set (xs @ ?a @ ?b). avoids lib c {ev_fn e}"
    using xs ab by (auto simp: f)
  have ys': "\<forall>c\<in>set ys. avoids lib c {ev_fn e}" using ys by (simp add: f)
  have ms: "\<forall>c\<in>set [?s]. avoids lib c {}"
    by (simp, (rule avoidsI, (rule steps_intros)+, simp))
  show ?thesis
  proof (rule locate[OF run' xs' ms ys' e])
    fix k1 r1 k2 pre post
    assume pfx: "block (xs @ ?a @ ?b) k = (Inr (), k1)"
      and sec: "block [?s] k1 = (r1, k2)"
      and e': "e \<in> set (new_events k1 k2)"
      and ne: "new_events k k' = pre @ new_events k1 k2 @ post"
      and tr: "trace k1 = trace k @ pre"
      and npre: "\<forall>x\<in>set pre. ev_fn x \<noteq> ev_fn e"
      and npost: "\<forall>x\<in>set post. ev_fn x \<noteq> ev_fn e"
    from pfx obtain u ka where a: "block xs k = (Inr u, ka)"
      and b0: "block (?a @ ?b) ka = (Inr (), k1)"
      by (auto simp: block_append[of xs])
    from b0 obtain u' kb where b: "block ?a ka = (Inr u', kb)" and c: "block ?b kb = (Inr (), k1)"
      by (auto simp only: block_append[of ?a] bind_eq_Inr)
    note ga = avoids_grows[OF avoids_block[OF xs] a]
    from sec have s: "?s k1 = (r1, k2)" by (simp only: block_single)
    show ?thesis
    proof (rule index_section_a[OF b])
      fix st i0 ds i1 i2 i3
      assume t1: "trace kb = trace ka @ [i0, ds, i1, i2, i3]"
        and g1: "globals kb ''in_memory_document_store'' = Some st"
          "globals kb ''doc_dir'' = Some (PStr ''data/Mahabharata'')"
        and ds: "ev_fn ds = ''InMemoryDocumentStore''" "ev_args ds = []"
          "ev_kwargs ds = [(''use_bm25'', PBool True)]" "ev_result ds = Inr st"
      show ?thesis
      proof (rule index_section_b[OF c g1])
        fix p ip pp tp
        assume t2: "trace k1 = trace kb @ [pp, tp]"
          and g2: "globals k1 ''indexing_pipeline'' = Some ip"
            "globals k1 ''files_to_index'' =
              Some (PList [PStr ''data/Mahabharata/1-18 books combined.txt''])"
          and pp: "ev_fn pp = ''PreProcessor''" "ev_args pp = []"
            "ev_kwargs pp = sparse_preprocessor_kwargs" "ev_result pp = Inr p"
          and tp: "ev_fn tp = ''TextIndexingPipeline''" "ev_args tp = [st]"
            "ev_kwargs tp = [(''preprocessor'', p)]" "ev_result tp = Inr ip"
        have pre: "pre = (new_events k ka @ [i0]) @ ds # [i1, i2, i3] @ [pp, tp]"
          using tr t1 t2 ga by simp
        show ?thesis
        proof (rule run_batch_stmt[OF s e'])
          fix ip' fl
          assume s1: "globals k1 ''indexing_pipeline'' = Some ip'"
            "globals k1 ''files_to_index'' = Some fl"
            and s2: "new_events k1 k2 = [e]"
            and s3: "ev_args e = [ip']" "ev_kwargs e = [(''file_paths'', fl)]"
          have same: "ip' = ip" "fl = PList [PStr ''data/Mahabharata/1-18 books combined.txt'']"
            using s1 g2 by simp_all
          have 1: "new_events k k' =
              (new_events k ka @ [i0]) @ ds # [i1, i2, i3] @ [pp, tp, e] @ post"
            using ne pre s2 by simp
          have 2: "\<forall>x\<in>set (new_events k ka @ [i0]) \<union> {ds} \<union> set [i1, i2, i3] \<union> {pp, tp} \<union>
              set post. ev_fn x \<noteq> ''run_batch''"
            using npre npost pre f by auto
          show ?thesis
            by (rule that[OF 1 2 ds pp tp]) (simp_all add: s3 same)
        qed
      qed
    qed
  qed
qed

lemma dense_write_event:
  assumes "cs \<in> {dense_cells lib q, dense_first_run lib q}"
    and "block cs k = (r, k')" and "e \<in> set (new_events k k')"
    and "ev_fn e = ''write_documents''"
  obtains pre i1 cv i2 pp pr post files p d st where
    "new_events k k' = pre @ [i1, cv, i2, pp, pr, e] @ post"
    and "\<forall>x\<in>set pre \<union> set post. ev_fn x \<noteq> ''write_documents''"
    and "ev_fn cv = ''convert_files_to_docs''" and "ev_args cv = []"
    and "ev_kwargs cv = [(''dir_path'', PStr ''data/Mahabharata''),
          (''clean_func'', PFun ''clean_wiki_text''), (''split_paragraphs'', PBool True)]"
    and "ev_result cv = Inr files"
    and "ev_fn i2 = ''import''"
    and "ev_fn pp = ''PreProcessor''" and "ev_args pp = []"
    and "ev_kwargs pp = dense_preprocessor_kwargs" and "ev_result pp = Inr p"
    and "ev_fn pr = ''process''" and "ev_args pr = [p, files]" and "ev_kwargs pr = []"
    and "ev_result pr = Inr d"
    and "ev_args e = [st, d]" and "ev_kwargs e = []"
proof -
  consider (a) "cs = dense_cells lib q" | (b) "cs = dense_first_run lib q" using assms(1) by auto
  then show ?thesis
  proof cases
    case a
    show ?thesis
    proof (rule write_event[OF _ _ _ assms(2-4)])
      show "cs = [dense_cell_5 lib, dense_cell_16 lib] @
          [dense_cell_18, dense_cell_20 lib, dense_cell_22 lib] @ [dense_cell_24 lib] @
          ([dense_cell_26 lib, dense_cell_28 lib, dense_cell_30 lib, dense_cell_32 lib] @
           dense_query lib q)"
        by (simp add: a dense_cells_def dense_build_def)
      show "\<forall>c\<in>set [dense_cell_5 lib, dense_cell_16 lib]. avoids lib c {''write_documents''}"
        by (simp, intro conjI; (rule avoidsI, rule cell_steps, simp))
      show "\<forall>c\<in>set ([dense_cell_26 lib, dense_cell_28 lib, dense_cell_30 lib, dense_cell_32 lib] @
           dense_query lib q). avoids lib c {''write_documents''}"
        unfolding dense_query_def
        by (simp, intro conjI; (rule avoidsI, rule cell_steps, simp))
    qed (rule that, assumption+)
  next
    case b
    show ?thesis
    proof (rule write_event[OF _ _ _ assms(2-4)])
      show "cs = [dense_cell_5 lib, dense_cell_16 lib] @
          [dense_cell_18, dense_cell_20 lib, dense_cell_22 lib] @ [dense_cell_24 lib] @
          ([dense_cell_26 lib, dense_cell_28 lib, dense_cell_30 lib] @ dense_query lib q)"
        by (simp add: b dense_first_run_def dense_build_def)
      show "\<forall>c\<in>set [dense_cell_5 lib, dense_cell_16 lib]. avoids lib c {''write_documents''}"
        by (simp, intro conjI; (rule avoidsI, rule cell_steps, simp))
      show "\<forall>c\<in>set ([dense_cell_26 lib, dense_cell_28 lib, dense_cell_30 lib] @
           dense_query lib q). avoids lib c {''write_documents''}"
        unfolding dense_query_def
        by (simp, intro conjI; (rule avoidsI, rule cell_steps, simp))
    qed (rule that, assumption+)
  qed
qed

lemma sparse_index_event:
  assumes "block (sparse_cells lib q) k = (r, k')" and "e \<in> set (new_events k k')"
    and "ev_fn e = ''run_batch''"
  obtains pre ds mid pp tp post st p ip where
    "new_events k k' = pre @ ds # mid @ [pp, tp, e] @ post"
    and "\<forall>x\<in>set pre \<union> {ds} \<union> set mid \<union> {pp, tp} \<union> set post. ev_fn x \<noteq> ''run_batch''"
    and "ev_fn ds = ''InMemoryDocumentStore''" and "ev_args ds = []"
    and "ev_kwargs ds = [(''use_bm25'', PBool True)]" and "ev_result ds = Inr st"
    and "ev_fn pp = ''PreProcessor''" and "ev_args pp = []"
    and "ev_kwargs pp = sparse_preprocessor_kwargs" and "ev_result pp = Inr p"
    and "ev_fn tp = ''TextIndexingPipeline''" and "ev_args tp = [st]"
    and "ev_kwargs tp = [(''preprocessor'', p)]" and "ev_result tp = Inr ip"
    and "ev_args e = [ip]"
    and "ev_kwargs e = [(''file_paths'', PList [PStr ''data/Mahabharata/1-18 books combined.txt''])]"
proof (rule index_event[OF _ _ _ assms])
  show "block (sparse_cells lib q) = block ([sparse_cell_4 lib] @
      [sparse_cell_6 lib, sparse_cell_9] @ sparse_cell_11 lib #
      [sparse_cell_14 lib, sparse_cell_17 lib, sparse_cell_20 lib, sparse_cell_23 lib q,
       sparse_cell_25 lib, sparse_cell_27 lib])"
    by (simp add: sparse_cells_def)
  show "\<forall>c\<in>set [sparse_cell_4 lib]. avoids lib c {''run_batch''}"
    by (simp, (rule avoidsI, rule cell_steps, simp))
  show "\<forall>c\<in>set [sparse_cell_14 lib, sparse_cell_17 lib, sparse_cell_20 lib, sparse_cell_23 lib q,
       sparse_cell_25 lib, sparse_cell_27 lib]. avoids lib c {''run_batch''}"
    by (simp, intro conjI; (rule avoidsI, rule cell_steps, simp))
qed (rule that, assumption+)

lemma sparse_never_calls:
  assumes "f \<in> {''write_documents'', ''update_embeddings'', ''convert_files_to_docs''}"
    and "block (sparse_cells lib q) k = (r, k')" and "e \<in> set (new_events k k')"
  shows "ev_fn e \<noteq> f"
proof -
  have "\<forall>c\<in>set (sparse_cells lib q).
      avoids lib c {''write_documents'', ''update_embeddings'', ''convert_files_to_docs''}"
    unfolding sparse_cells_def
    by (simp, intro conjI; (rule avoidsI, rule cell_steps, simp))
  from avoids_names[OF avoids_block[OF this] assms(2,3)] assms(1) show ?thesis by auto
qed
section \<open>The calls before and after an event\<close>


























section \<open>Failures of the library\<close>

lemma steps_propagates: "steps lib c fs \<Longrightarrow> propagates c"
  unfolding propagates_def
proof
  fix k
  assume s: "steps lib c fs"
  obtain r k' where c: "c k = (r, k')" by (cases "c k")
  show "unhandled (fst (c k)) (new_events k (snd (c k)))"
    using run_ok_new_events(3)[OF stepsD[OF s c]] c by simp
qed

lemma avoids_propagates: "avoids lib c F \<Longrightarrow> propagates c"
  unfolding avoids_def using steps_propagates by blast

text \<open>
  C7. In both notebooks, every Python cell, and the notebook as a whole under Run All,
  propagates failures: whenever a library call raises (store construction, file
  conversion, pre-processing, writing documents, embedding update, index save or load,
  query execution, printing, import), no further call is made and the cell ends with
  exactly that exception. No operation catches it, retries, recovers or replaces it.
\<close>

theorem failures_propagate:
  "(\<forall>c \<in> set (dense_cells lib q) \<union> set (sparse_cells lib q). propagates c) \<and>
   propagates (block (dense_cells lib q)) \<and> propagates (block (sparse_cells lib q))"
proof (intro conjI ballI)
  fix c assume "c \<in> set (dense_cells lib q) \<union> set (sparse_cells lib q)"
  then have "avoids lib c {}" using dense_cells_traced sparse_cells_traced by blast
  then show "propagates c" by (rule avoids_propagates)
next
  show "propagates (block (dense_cells lib q))"
    by (rule avoids_propagates[OF avoids_block[OF dense_cells_traced]])
next
  show "propagates (block (sparse_cells lib q))"
    by (rule avoids_propagates[OF avoids_block[OF sparse_cells_traced]])
qed

theorem failures_propagate_witness:
  "dense_cell_28 toy_offline \<in>
     set (dense_cells toy_offline ''Who is Krishna?'') \<union>
     set (sparse_cells toy_offline ''Who is Krishna?'') \<and>
   propagates (dense_cell_28 toy_offline) \<and>
   fst (block (dense_cells toy_offline ''Who is Krishna?'') (fresh toy_start)) =
     Inl (Raised ''model download failed'') \<and>
   unhandled (fst (block (dense_cells toy_offline ''Who is Krishna?'') (fresh toy_start)))
     (new_events (fresh toy_start)
        (snd (block (dense_cells toy_offline ''Who is Krishna?'') (fresh toy_start))))"
proof -
  note th = failures_propagate[of toy_offline "''Who is Krishna?''"]
  have m: "dense_cell_28 toy_offline \<in>
     set (dense_cells toy_offline ''Who is Krishna?'') \<union>
     set (sparse_cells toy_offline ''Who is Krishna?'')"
    by (simp add: dense_cells_def dense_build_def)
  have p: "propagates (dense_cell_28 toy_offline)" using th m by blast
  have r: "fst (block (dense_cells toy_offline ''Who is Krishna?'') (fresh toy_start)) =
     Inl (Raised ''model download failed'')"
    by (simp add: run_defs)
  have "propagates (block (dense_cells toy_offline ''Who is Krishna?''))" using th by blast
  then have u: "unhandled (fst (block (dense_cells toy_offline ''Who is Krishna?'') (fresh toy_start)))
     (new_events (fresh toy_start)
        (snd (block (dense_cells toy_offline ''Who is Krishna?'') (fresh toy_start))))"
    unfolding propagates_def by blast
  show ?thesis using m p r u by blast
qed

section \<open>The question\<close>

lemma ask_event:
  assumes "ask lib q k = (r, k')" and "e \<in> set (new_events k k')"
  shows "ev_fn e = ''run'' \<and> (\<exists>p. ev_args e = [p]) \<and>
     ev_kwargs e =
       [(''query'', PStr q),
        (''params'', PDict [(''Retriever'', PDict [(''top_k'', PInt 10)]),
                            (''Reader'', PDict [(''top_k'', PInt 2)])])]"
  using assms unfolding ask_def
  by (auto simp: unf bind_eq new_events_def split: option.splits)

lemma run_event:
  assumes cs: "cs = xs @ [ask lib q] @ ys"
    and xs: "\<forall>c\<in>set xs. avoids lib c {''run''}" and ys: "\<forall>c\<in>set ys. avoids lib c {''run''}"
    and run: "block cs k = (r, k')" and e: "e \<in> set (new_events k k')" and f: "ev_fn e = ''run''"
  shows "(\<exists>p. ev_args e = [p]) \<and>
     ev_kwargs e =
       [(''query'', PStr q),
        (''params'', PDict [(''Retriever'', PDict [(''top_k'', PInt 10)]),
                            (''Reader'', PDict [(''top_k'', PInt 2)])])]"
proof -
  have ms: "\<forall>c\<in>set [ask lib q]. avoids lib c {}"
    using steps_dense_cell_38[of lib q] by (auto simp: dense_cell_38_def intro: avoidsI)
  from locate[OF run[unfolded cs] _ ms _ e] xs ys f
  obtain k1 r1 k2 where "block [ask lib q] k1 = (r1, k2)" "e \<in> set (new_events k1 k2)"
    by metis
  then obtain r2 k3 where "ask lib q k1 = (r2, k3)" "e \<in> set (new_events k1 k3)"
    by (auto simp: bind_eq)
  from ask_event[OF this] show ?thesis by simp
qed

text \<open>
  C2. In every run of either notebook (dense: all cells in order, a first run, or a re-run
  with an existing store; sparse), for every query \<open>q\<close>, every call of \<^verbatim>\<open>run\<close> is made on
  one object with \<^verbatim>\<open>query=q\<close> and
  \<^verbatim>\<open>params={"Retriever": {"top_k": 10}, "Reader": {"top_k": 2}}\<close>. Hence, for a library
  whose pipelines honour \<^verbatim>\<open>top_k\<close>, a pipeline run that returns has handed at most 10
  Documents to the reader and holds at most 2 answers.
\<close>

theorem run_top_k:
  assumes "cs \<in> {dense_cells lib q, dense_first_run lib q, dense_rerun lib q, sparse_cells lib q}"
    and "block cs k = (r, k')" and "e \<in> set (new_events k k')" and "ev_fn e = ''run''"
  shows "(\<exists>p. ev_args e = [p]) \<and>
     ev_kwargs e =
       [(''query'', PStr q),
        (''params'', PDict [(''Retriever'', PDict [(''top_k'', PInt 10)]),
                            (''Reader'', PDict [(''top_k'', PInt 2)])])] \<and>
     (honours_top_k lib handed answers \<longrightarrow>
        (\<forall>v. ev_result e = Inr v \<longrightarrow> handed v (ev_after e) \<le> 10 \<and> answers v (ev_after e) \<le> 2))"
proof -
  consider (a) "cs = dense_cells lib q" | (b) "cs = dense_first_run lib q"
    | (c) "cs = dense_rerun lib q" | (d) "cs = sparse_cells lib q"
    using assms(1) by auto
  then have call: "(\<exists>p. ev_args e = [p]) \<and>
     ev_kwargs e =
       [(''query'', PStr q),
        (''params'', PDict [(''Retriever'', PDict [(''top_k'', PInt 10)]),
                            (''Reader'', PDict [(''top_k'', PInt 2)])])]"
  proof cases
    case a
    show ?thesis
    proof (rule run_event[OF _ _ _ assms(2,3,4)])
      show "cs = (dense_cell_5 lib # dense_build lib @ [dense_cell_32 lib, dense_cell_34 lib,
          dense_cell_36 lib]) @ [ask lib q] @ [dense_cell_40 lib]"
        by (simp add: a dense_cells_def dense_query_def dense_cell_38_def)
      show "\<forall>c\<in>set (dense_cell_5 lib # dense_build lib @ [dense_cell_32 lib, dense_cell_34 lib,
          dense_cell_36 lib]). avoids lib c {''run''}"
        unfolding dense_build_def
        by (simp, intro conjI; (rule avoidsI, rule cell_steps, simp))
      show "\<forall>c\<in>set [dense_cell_40 lib]. avoids lib c {''run''}"
        by (simp, (rule avoidsI, rule cell_steps, simp))
    qed
  next
    case b
    show ?thesis
    proof (rule run_event[OF _ _ _ assms(2,3,4)])
      show "cs = (dense_cell_5 lib # dense_build lib @ [dense_cell_34 lib,
          dense_cell_36 lib]) @ [ask lib q] @ [dense_cell_40 lib]"
        by (simp add: b dense_first_run_def dense_query_def dense_cell_38_def)
      show "\<forall>c\<in>set (dense_cell_5 lib # dense_build lib @ [dense_cell_34 lib,
          dense_cell_36 lib]). avoids lib c {''run''}"
        unfolding dense_build_def
        by (simp, intro conjI; (rule avoidsI, rule cell_steps, simp))
      show "\<forall>c\<in>set [dense_cell_40 lib]. avoids lib c {''run''}"
        by (simp, (rule avoidsI, rule cell_steps, simp))
    qed
  next
    case c
    show ?thesis
    proof (rule run_event[OF _ _ _ assms(2,3,4)])
      show "cs = [dense_cell_5 lib, dense_cell_32 lib, dense_cell_34 lib,
          dense_cell_36 lib] @ [ask lib q] @ [dense_cell_40 lib]"
        by (simp add: c dense_rerun_def dense_query_def dense_cell_38_def)
      show "\<forall>c\<in>set [dense_cell_5 lib, dense_cell_32 lib, dense_cell_34 lib,
          dense_cell_36 lib]. avoids lib c {''run''}"
        by (simp, intro conjI; (rule avoidsI, rule cell_steps, simp))
      show "\<forall>c\<in>set [dense_cell_40 lib]. avoids lib c {''run''}"
        by (simp, (rule avoidsI, rule cell_steps, simp))
    qed
  next
    case d
    show ?thesis
    proof (rule run_event[OF _ _ _ assms(2,3,4)])
      show "cs = [sparse_cell_4 lib, sparse_cell_6 lib, sparse_cell_9, sparse_cell_11 lib,
          sparse_cell_14 lib, sparse_cell_17 lib, sparse_cell_20 lib] @ [ask lib q] @
          [sparse_cell_25 lib, sparse_cell_27 lib]"
        by (simp add: d sparse_cells_def sparse_cell_23_def)
      show "\<forall>c\<in>set [sparse_cell_4 lib, sparse_cell_6 lib, sparse_cell_9, sparse_cell_11 lib,
          sparse_cell_14 lib, sparse_cell_17 lib, sparse_cell_20 lib]. avoids lib c {''run''}"
        by (simp, intro conjI; (rule avoidsI, rule cell_steps, simp))
      show "\<forall>c\<in>set [sparse_cell_25 lib, sparse_cell_27 lib]. avoids lib c {''run''}"
        by (simp, intro conjI; (rule avoidsI, rule cell_steps, simp))
    qed
  qed
  have tr: "\<forall>c\<in>set cs. avoids lib c {}"
    using assms(1) dense_cells_traced sparse_cells_traced dense_first_run_traced dense_rerun_traced
    by blast
  have g: "genuine lib e" by (rule genuine_new_events[OF tr assms(2,3)])
  have "honours_top_k lib handed answers \<longrightarrow>
        (\<forall>v. ev_result e = Inr v \<longrightarrow> handed v (ev_after e) \<le> 10 \<and> answers v (ev_after e) \<le> 2)"
  proof (intro impI allI)
    fix v assume h: "honours_top_k lib handed answers" and v: "ev_result e = Inr v"
    from call obtain p where p: "ev_args e = [p]" by blast
    have "lib ''run'' [p] [(''query'', PStr q),
        (''params'', PDict [(''Retriever'', PDict [(''top_k'', PInt 10)]),
                            (''Reader'', PDict [(''top_k'', PInt 2)])])] (ev_world e) =
       (Inr v, ev_after e)"
      using g call p v assms(4) by (simp add: genuine_def)
    from h[unfolded honours_top_k_def, rule_format, OF this]
    show "handed v (ev_after e) \<le> 10 \<and> answers v (ev_after e) \<le> 2" by simp
  qed
  then show ?thesis using call by blast
qed

lemma toy_honours_top_k:
  "honours_top_k toy (\<lambda>v w. toy_count ''documents'' v) (\<lambda>v w. toy_count ''answers'' v)"
  by (auto simp: honours_top_k_def toy_def toy_prediction_def toy_top_k_def)

lemma dense_demo_question:
  "trace dense_demo ! 26 =
     \<lparr>ev_fn = ''run'', ev_args = [PObj 22],
      ev_kwargs =
        [(''query'', PStr ''Who is Krishna?''),
         (''params'', PDict [(''Retriever'', PDict [(''top_k'', PInt 10)]),
                             (''Reader'', PDict [(''top_k'', PInt 2)])])],
      ev_world = \<lparr>made = 23, stored = [PObj 11], embedded = True\<rparr>,
      ev_result = Inr (PDict [(''answers'', PList [PStr ''Krishna'', PStr ''the son of Devaki'']),
                              (''documents'', PList [PObj 11])]),
      ev_after = \<lparr>made = 23, stored = [PObj 11], embedded = True\<rparr>\<rparr>"
  by (simp add: dense_demo_def run_defs)

theorem run_top_k_witness:
  "dense_cells toy ''Who is Krishna?'' \<in>
     {dense_cells toy ''Who is Krishna?'', dense_first_run toy ''Who is Krishna?'',
      dense_rerun toy ''Who is Krishna?'', sparse_cells toy ''Who is Krishna?''} \<and>
   trace dense_demo ! 26 \<in> set (new_events (fresh toy_start) dense_demo) \<and>
   ev_fn (trace dense_demo ! 26) = ''run'' \<and>
   honours_top_k toy (\<lambda>v w. toy_count ''documents'' v) (\<lambda>v w. toy_count ''answers'' v) \<and>
   ev_result (trace dense_demo ! 26) =
     Inr (PDict [(''answers'', PList [PStr ''Krishna'', PStr ''the son of Devaki'']),
                 (''documents'', PList [PObj 11])]) \<and>
   ev_kwargs (trace dense_demo ! 26) =
     [(''query'', PStr ''Who is Krishna?''),
      (''params'', PDict [(''Retriever'', PDict [(''top_k'', PInt 10)]),
                          (''Reader'', PDict [(''top_k'', PInt 2)])])] \<and>
   toy_count ''documents''
     (PDict [(''answers'', PList [PStr ''Krishna'', PStr ''the son of Devaki'']),
             (''documents'', PList [PObj 11])]) \<le> 10 \<and>
   toy_count ''answers''
     (PDict [(''answers'', PList [PStr ''Krishna'', PStr ''the son of Devaki'']),
             (''documents'', PList [PObj 11])]) \<le> 2"
proof -
  have n: "26 < length (map ev_fn (trace dense_demo))" by (simp add: dense_demo_names)
  have m: "trace dense_demo ! 26 \<in> set (new_events (fresh toy_start) dense_demo)"
    by (rule demo_event(1)[OF refl n])
  have f: "ev_fn (trace dense_demo ! 26) = ''run''" by (simp add: dense_demo_question)
  note th = run_top_k[OF _ dense_demo_block m f, where handed = "\<lambda>v w. toy_count ''documents'' v"
      and answers = "\<lambda>v w. toy_count ''answers'' v"]
  show ?thesis using th toy_honours_top_k m f dense_demo_question by simp
qed

section \<open>Loading a saved store\<close>

lemma load_section:
  assumes run: "block
     [assign ''sqlite_document_store'' (call lib ''FAISSDocumentStore.load'' []
        [(''index_path'', lit (PStr ''mahabharata_faiss'')),
         (''config_path'', lit (PStr ''mahabharata_faiss.json''))]),
      assert_stmt (equals (attr lib (var ''sqlite_document_store'') ''faiss_index_factory_str'')
        (lit (PStr ''Flat''))),
      embedding_retriever lib] k = (r, k')"
    and ld: "ld \<in> set (new_events k k')"
    and f: "ev_fn ld = ''FAISSDocumentStore.load''" and st: "ev_result ld = Inr st"
  obtains g post where "new_events k k' = ld # g # post"
    and "ev_kwargs ld = [(''index_path'', PStr ''mahabharata_faiss''),
                     (''config_path'', PStr ''mahabharata_faiss.json'')]"
    and "ev_fn g = ''getattr''" and "ev_args g = [st, PStr ''faiss_index_factory_str'']"
    and "ev_kwargs g = []" and "ev_world g = ev_after ld"
    and "\<And>x. ev_result g = Inl x \<Longrightarrow> r = Inl x \<and> post = []"
    and "ev_result g = Inr (PStr ''Flat'') \<Longrightarrow>
        \<exists>er. post = [er] \<and> ev_fn er = ''EmbeddingRetriever'' \<and> ev_args er = [] \<and>
           ev_kwargs er = [(''document_store'', st),
             (''embedding_model'', PStr ''sentence-transformers/multi-qa-mpnet-base-dot-v1'')] \<and>
           ev_world er = ev_after g"
    and "\<And>a. ev_result g = Inr a \<Longrightarrow> a \<noteq> PStr ''Flat'' \<Longrightarrow> r = Inl AssertionError \<and> post = []"
proof -
  let ?kw = "[(''index_path'', PStr ''mahabharata_faiss''),
       (''config_path'', PStr ''mahabharata_faiss.json'')]"
  obtain r1 w1 where l1: "lib ''FAISSDocumentStore.load'' [] ?kw (world k) = (r1, w1)"
    by fastforce
  let ?E1 = "\<lparr>ev_fn = ''FAISSDocumentStore.load'', ev_args = [], ev_kwargs = ?kw,
      ev_world = world k, ev_result = r1, ev_after = w1\<rparr>"
  note run' = run[symmetric]
  show thesis
  proof (cases r1)
    case (Inl x)
    from run' have "trace k' = trace k @ [?E1]" by (simp add: exec l1 Inl)
    then have "new_events k k' = [?E1]" by (simp add: new_events_def)
    then show ?thesis using ld st Inl by simp
  next
    case s: (Inr s)
    obtain r2 w2 where l2: "lib ''getattr'' [s, PStr ''faiss_index_factory_str''] [] w1 = (r2, w2)"
      by fastforce
    let ?E2 = "\<lparr>ev_fn = ''getattr'', ev_args = [s, PStr ''faiss_index_factory_str''],
      ev_kwargs = [], ev_world = w1, ev_result = r2, ev_after = w2\<rparr>"
    show ?thesis
    proof (cases r2)
      case (Inl x)
      from run' have t: "trace k' = trace k @ [?E1, ?E2]" and r: "r = Inl x"
        by (simp_all add: exec l1 l2 s Inl)
      from t have ne: "new_events k k' = [?E1, ?E2]" by (simp add: new_events_def)
      have e: "ld = ?E1" by (rule the_call[OF ld[unfolded ne] f]) simp
      show ?thesis
        by (rule that[of ?E2 "[]"]) (use ne r st s Inl e in simp_all)
    next
      case a: (Inr a)
      show ?thesis
      proof (cases "a = PStr ''Flat''")
        case False
        from run' have t: "trace k' = trace k @ [?E1, ?E2]" and r: "r = Inl AssertionError"
          using False by (simp_all add: exec l1 l2 s a)
        from t have ne: "new_events k k' = [?E1, ?E2]" by (simp add: new_events_def)
        have e: "ld = ?E1" by (rule the_call[OF ld[unfolded ne] f]) simp
        show ?thesis
          by (rule that[of ?E2 "[]"]) (use ne r st s a False e in simp_all)
      next
        case True
        let ?kw3 = "[(''document_store'', s),
             (''embedding_model'', PStr ''sentence-transformers/multi-qa-mpnet-base-dot-v1'')]"
        obtain r3 w3 where l3: "lib ''EmbeddingRetriever'' [] ?kw3 w2 = (r3, w3)"
          by fastforce
        let ?E3 = "\<lparr>ev_fn = ''EmbeddingRetriever'', ev_args = [], ev_kwargs = ?kw3,
          ev_world = w2, ev_result = r3, ev_after = w3\<rparr>"
        from run' have t: "trace k' = trace k @ [?E1, ?E2, ?E3]"
          using True by (cases r3) (simp_all add: exec embedding_retriever_def l1 l2 l3 s a)
        from t have ne: "new_events k k' = [?E1, ?E2, ?E3]" by (simp add: new_events_def)
        have e: "ld = ?E1" by (rule the_call[OF ld[unfolded ne] f]) simp
        show ?thesis
          by (rule that[of ?E2 "[?E3]"]) (use ne st s a True e in simp_all)
      qed
    qed
  qed
qed

lemma load_section_avoids:
  "\<forall>c\<in>set
     [assign ''sqlite_document_store'' (call lib ''FAISSDocumentStore.load'' []
        [(''index_path'', lit (PStr ''mahabharata_faiss'')),
         (''config_path'', lit (PStr ''mahabharata_faiss.json''))]),
      assert_stmt (equals (attr lib (var ''sqlite_document_store'') ''faiss_index_factory_str'')
        (lit (PStr ''Flat''))),
      embedding_retriever lib]. avoids lib c {}"
  by (simp, intro conjI; (rule avoidsI, (rule steps_intros steps_embedding_retriever)+, simp))

lemma load_event:
  assumes cs: "block cs = block (xs @ dense_cell_32 lib # ys)"
    and xs: "\<forall>c\<in>set xs. avoids lib c {''FAISSDocumentStore.load''}"
    and ys: "\<forall>c\<in>set ys. avoids lib c {''FAISSDocumentStore.load''}"
    and run: "block cs k = (r, k')" and ld: "ld \<in> set (new_events k k')"
    and f: "ev_fn ld = ''FAISSDocumentStore.load''" and st: "ev_result ld = Inr st"
  shows "\<exists>pre g post. new_events k k' = pre @ ld # g # post \<and>
     ev_kwargs ld = [(''index_path'', PStr ''mahabharata_faiss''),
                     (''config_path'', PStr ''mahabharata_faiss.json'')] \<and>
     ev_fn g = ''getattr'' \<and> ev_args g = [st, PStr ''faiss_index_factory_str''] \<and>
     ev_kwargs g = [] \<and> ev_world g = ev_after ld \<and>
     (\<forall>x. ev_result g = Inl x \<longrightarrow> r = Inl x \<and> post = []) \<and>
     (ev_result g = Inr (PStr ''Flat'') \<longrightarrow>
        (\<exists>er post'. post = er # post' \<and> ev_fn er = ''EmbeddingRetriever'' \<and> ev_args er = [] \<and>
           ev_kwargs er = [(''document_store'', st),
             (''embedding_model'', PStr ''sentence-transformers/multi-qa-mpnet-base-dot-v1'')] \<and>
           ev_world er = ev_after g)) \<and>
     (\<forall>a. ev_result g = Inr a \<and> a \<noteq> PStr ''Flat'' \<longrightarrow> r = Inl AssertionError \<and> post = [])"
proof -
  let ?i1 = "import_stmt lib ''haystack.document_stores'' [''FAISSDocumentStore'']"
  let ?i2 = "import_stmt lib ''haystack.nodes'' [''EmbeddingRetriever'']"
  let ?ms = "[assign ''sqlite_document_store'' (call lib ''FAISSDocumentStore.load'' []
        [(''index_path'', lit (PStr ''mahabharata_faiss'')),
         (''config_path'', lit (PStr ''mahabharata_faiss.json''))]),
      assert_stmt (equals (attr lib (var ''sqlite_document_store'') ''faiss_index_factory_str'')
        (lit (PStr ''Flat''))),
      embedding_retriever lib]"
  have "block (xs @ dense_cell_32 lib # ys) = block ((xs @ [?i1, ?i2]) @ ?ms @ ys)"
    unfolding dense_cell_32_def by (simp only: block_flatten append.simps append_assoc)
  then have run': "block ((xs @ [?i1, ?i2]) @ ?ms @ ys) k = (r, k')"
    using run cs by (simp only:)
  have i: "avoids lib ?i1 {ev_fn ld}" "avoids lib ?i2 {ev_fn ld}"
    by (rule avoidsI[OF steps_import], simp add: f)+
  have xs': "\<forall>c\<in>set (xs @ [?i1, ?i2]). avoids lib c {ev_fn ld}"
    using xs i by (simp add: f)
  have ys': "\<forall>c\<in>set ys. avoids lib c {ev_fn ld}" using ys by (simp add: f)
  show ?thesis
  proof (rule locate[OF run' xs' load_section_avoids ys' ld])
    fix k1 r1 k2 pre post0
    assume sec: "block ?ms k1 = (r1, k2)" "ld \<in> set (new_events k1 k2)"
      and ne: "new_events k k' = pre @ new_events k1 k2 @ post0"
      and stop: "isl r1 \<Longrightarrow> r = r1 \<and> k' = k2 \<and> post0 = []"
    show ?thesis
    proof (rule load_section[OF sec f st])
      fix g post1
      assume g: "new_events k1 k2 = ld # g # post1"
        "ev_kwargs ld = [(''index_path'', PStr ''mahabharata_faiss''),
                     (''config_path'', PStr ''mahabharata_faiss.json'')]"
        "ev_fn g = ''getattr''" "ev_args g = [st, PStr ''faiss_index_factory_str'']"
        "ev_kwargs g = []" "ev_world g = ev_after ld"
      and bad: "\<And>x. ev_result g = Inl x \<Longrightarrow> r1 = Inl x \<and> post1 = []"
      and flat: "ev_result g = Inr (PStr ''Flat'') \<Longrightarrow>
        \<exists>er. post1 = [er] \<and> ev_fn er = ''EmbeddingRetriever'' \<and> ev_args er = [] \<and>
           ev_kwargs er = [(''document_store'', st),
             (''embedding_model'', PStr ''sentence-transformers/multi-qa-mpnet-base-dot-v1'')] \<and>
           ev_world er = ev_after g"
      and other: "\<And>a. ev_result g = Inr a \<Longrightarrow> a \<noteq> PStr ''Flat'' \<Longrightarrow>
        r1 = Inl AssertionError \<and> post1 = []"
      have 1: "new_events k k' = pre @ ld # g # (post1 @ post0)" using ne g(1) by simp
      have 2: "\<forall>x. ev_result g = Inl x \<longrightarrow> r = Inl x \<and> post1 @ post0 = []"
      proof (intro allI impI)
        fix x assume "ev_result g = Inl x"
        from bad[OF this] show "r = Inl x \<and> post1 @ post0 = []" using stop by simp
      qed
      have 3: "ev_result g = Inr (PStr ''Flat'') \<longrightarrow>
        (\<exists>er post'. post1 @ post0 = er # post' \<and> ev_fn er = ''EmbeddingRetriever'' \<and>
           ev_args er = [] \<and>
           ev_kwargs er = [(''document_store'', st),
             (''embedding_model'', PStr ''sentence-transformers/multi-qa-mpnet-base-dot-v1'')] \<and>
           ev_world er = ev_after g)"
      proof
        assume "ev_result g = Inr (PStr ''Flat'')"
        from flat[OF this] obtain er where er: "post1 = [er] \<and> ev_fn er = ''EmbeddingRetriever'' \<and>
           ev_args er = [] \<and>
           ev_kwargs er = [(''document_store'', st),
             (''embedding_model'', PStr ''sentence-transformers/multi-qa-mpnet-base-dot-v1'')] \<and>
           ev_world er = ev_after g" ..
        show "\<exists>er post'. post1 @ post0 = er # post' \<and> ev_fn er = ''EmbeddingRetriever'' \<and>
           ev_args er = [] \<and>
           ev_kwargs er = [(''document_store'', st),
             (''embedding_model'', PStr ''sentence-transformers/multi-qa-mpnet-base-dot-v1'')] \<and>
           ev_world er = ev_after g"
          by (rule exI[of _ er], rule exI[of _ post0]) (use er in simp)
      qed
      have 4: "\<forall>a. ev_result g = Inr a \<and> a \<noteq> PStr ''Flat'' \<longrightarrow>
        r = Inl AssertionError \<and> post1 @ post0 = []"
      proof (intro allI impI)
        fix a assume "ev_result g = Inr a \<and> a \<noteq> PStr ''Flat''"
        then have "r1 = Inl AssertionError \<and> post1 = []" using other by simp
        then show "r = Inl AssertionError \<and> post1 @ post0 = []" using stop by simp
      qed
      show ?thesis
        apply (rule exI[of _ pre], rule exI[of _ g], rule exI[of _ "post1 @ post0"])
        apply (intro conjI)
                apply (rule 1)
               apply (rule g(2))
              apply (rule g(3))
             apply (rule g(4))
            apply (rule g(5))
           apply (rule g(6))
          apply (rule 2)
         apply (rule 3)
        apply (rule 4)
        done
    qed
  qed
qed


text \<open>
  C9. In every run of the dense notebook that reaches cell 32 (all cells in order, or the
  re-run path on a fresh kernel), a successful \<^verbatim>\<open>FAISSDocumentStore.load\<close> is followed at
  once, in the world it left, by the read of \<^verbatim>\<open>faiss_index_factory_str\<close> of the loaded
  store. If the value is the string \<^verbatim>\<open>Flat\<close> the assertion holds and the next call
  constructs the EmbeddingRetriever on the loaded store; if it is anything else the run
  ends with AssertionError and no call follows, so no retriever is constructed.
\<close>

theorem load_then_assert:
  assumes "cs \<in> {dense_cells lib q, dense_rerun lib q}"
    and "block cs k = (r, k')" and "ld \<in> set (new_events k k')"
    and "ev_fn ld = ''FAISSDocumentStore.load''" and "ev_result ld = Inr st"
  shows "(\<exists>pre g post. new_events k k' = pre @ ld # g # post \<and>
     ev_kwargs ld = [(''index_path'', PStr ''mahabharata_faiss''),
                     (''config_path'', PStr ''mahabharata_faiss.json'')] \<and>
     ev_fn g = ''getattr'' \<and> ev_args g = [st, PStr ''faiss_index_factory_str''] \<and>
     ev_kwargs g = [] \<and> ev_world g = ev_after ld \<and>
     (\<forall>x. ev_result g = Inl x \<longrightarrow> r = Inl x \<and> post = []) \<and>
     (ev_result g = Inr (PStr ''Flat'') \<longrightarrow>
        (\<exists>er post'. post = er # post' \<and> ev_fn er = ''EmbeddingRetriever'' \<and> ev_args er = [] \<and>
           ev_kwargs er = [(''document_store'', st),
             (''embedding_model'', PStr ''sentence-transformers/multi-qa-mpnet-base-dot-v1'')] \<and>
           ev_world er = ev_after g)) \<and>
     (\<forall>a. ev_result g = Inr a \<and> a \<noteq> PStr ''Flat'' \<longrightarrow> r = Inl AssertionError \<and> post = []))"
proof -
  consider (a) "cs = dense_cells lib q" | (b) "cs = dense_rerun lib q" using assms(1) by auto
  then show ?thesis
  proof cases
    case a
    show ?thesis
    proof (rule load_event[OF _ _ _ assms(2-5)])
      show "block cs = block ((dense_cell_5 lib # dense_build lib) @ dense_cell_32 lib #
          dense_query lib q)"
        by (simp add: a dense_cells_def)
      show "\<forall>c\<in>set (dense_cell_5 lib # dense_build lib).
          avoids lib c {''FAISSDocumentStore.load''}"
        unfolding dense_build_def
        by (simp, intro conjI; (rule avoidsI, rule cell_steps, simp))
      show "\<forall>c\<in>set (dense_query lib q). avoids lib c {''FAISSDocumentStore.load''}"
        unfolding dense_query_def
        by (simp, intro conjI; (rule avoidsI, rule cell_steps, simp))
    qed
  next
    case b
    show ?thesis
    proof (rule load_event[OF _ _ _ assms(2-5)])
      show "block cs = block ([dense_cell_5 lib] @ dense_cell_32 lib # dense_query lib q)"
        by (simp add: b dense_rerun_def)
      show "\<forall>c\<in>set [dense_cell_5 lib]. avoids lib c {''FAISSDocumentStore.load''}"
        by (simp, (rule avoidsI, rule cell_steps, simp))
      show "\<forall>c\<in>set (dense_query lib q). avoids lib c {''FAISSDocumentStore.load''}"
        unfolding dense_query_def
        by (simp, intro conjI; (rule avoidsI, rule cell_steps, simp))
    qed
  qed
qed

lemma rerun_demo_ivf:
  "fst (block (dense_rerun toy_ivf ''Who is Krishna?'') (fresh toy_start)) = Inl AssertionError \<and>
   map ev_fn (trace (rerun_demo toy_ivf)) =
     [''import'', ''logging.basicConfig'', ''logging.getLogger'', ''setLevel'', ''import'',
      ''import'', ''FAISSDocumentStore.load'', ''getattr''] \<and>
   ev_result (trace (rerun_demo toy_ivf) ! 6) = Inr (PObj 6) \<and>
   ev_result (trace (rerun_demo toy_ivf) ! 7) = Inr (PStr ''IVF256,Flat'')"
  by (simp add: rerun_demo_def run_defs toy_ivf_def)

theorem load_then_assert_witness:
  "dense_rerun toy_ivf ''Who is Krishna?'' \<in>
     {dense_cells toy_ivf ''Who is Krishna?'', dense_rerun toy_ivf ''Who is Krishna?''} \<and>
   trace (rerun_demo toy_ivf) ! 6 \<in> set (new_events (fresh toy_start) (rerun_demo toy_ivf)) \<and>
   ev_fn (trace (rerun_demo toy_ivf) ! 6) = ''FAISSDocumentStore.load'' \<and>
   ev_result (trace (rerun_demo toy_ivf) ! 6) = Inr (PObj 6) \<and>
   ev_result (trace (rerun_demo toy_ivf) ! 7) = Inr (PStr ''IVF256,Flat'') \<and>
   fst (block (dense_rerun toy_ivf ''Who is Krishna?'') (fresh toy_start)) = Inl AssertionError \<and>
   map ev_fn (trace (rerun_demo toy_ivf)) =
     [''import'', ''logging.basicConfig'', ''logging.getLogger'', ''setLevel'', ''import'',
      ''import'', ''FAISSDocumentStore.load'', ''getattr''] \<and>
   (\<exists>pre g post. new_events (fresh toy_start) (rerun_demo toy_ivf) = pre @ (trace (rerun_demo toy_ivf) ! 6) # g # post \<and>
     ev_kwargs (trace (rerun_demo toy_ivf) ! 6) = [(''index_path'', PStr ''mahabharata_faiss''),
                     (''config_path'', PStr ''mahabharata_faiss.json'')] \<and>
     ev_fn g = ''getattr'' \<and> ev_args g = [(PObj 6), PStr ''faiss_index_factory_str''] \<and>
     ev_kwargs g = [] \<and> ev_world g = ev_after (trace (rerun_demo toy_ivf) ! 6) \<and>
     (\<forall>x. ev_result g = Inl x \<longrightarrow> fst (block (dense_rerun toy_ivf ''Who is Krishna?'') (fresh toy_start)) = Inl x \<and> post = []) \<and>
     (ev_result g = Inr (PStr ''Flat'') \<longrightarrow>
        (\<exists>er post'. post = er # post' \<and> ev_fn er = ''EmbeddingRetriever'' \<and> ev_args er = [] \<and>
           ev_kwargs er = [(''document_store'', (PObj 6)),
             (''embedding_model'', PStr ''sentence-transformers/multi-qa-mpnet-base-dot-v1'')] \<and>
           ev_world er = ev_after g)) \<and>
     (\<forall>a. ev_result g = Inr a \<and> a \<noteq> PStr ''Flat'' \<longrightarrow> fst (block (dense_rerun toy_ivf ''Who is Krishna?'') (fresh toy_start)) = Inl AssertionError \<and> post = []))"
proof -
  note d = rerun_demo_ivf
  have "length (map ev_fn (trace (rerun_demo toy_ivf))) = 8" by (simp add: d)
  then have len: "length (trace (rerun_demo toy_ivf)) = 8" by simp
  then have "trace (rerun_demo toy_ivf) ! 6 \<in> set (trace (rerun_demo toy_ivf))" by simp
  then have m: "trace (rerun_demo toy_ivf) ! 6 \<in>
      set (new_events (fresh toy_start) (rerun_demo toy_ivf))"
    by (simp only: new_events_fresh)
  have "map ev_fn (trace (rerun_demo toy_ivf)) ! 6 = ''FAISSDocumentStore.load''"
    by (simp add: d)
  then have f: "ev_fn (trace (rerun_demo toy_ivf) ! 6) = ''FAISSDocumentStore.load''"
    using len by simp
  have st: "ev_result (trace (rerun_demo toy_ivf) ! 6) = Inr (PObj 6)" using d by simp
  have c: "dense_rerun toy_ivf ''Who is Krishna?'' \<in>
     {dense_cells toy_ivf ''Who is Krishna?'', dense_rerun toy_ivf ''Who is Krishna?''}"
    by simp
  have r: "block (dense_rerun toy_ivf ''Who is Krishna?'') (fresh toy_start) =
      (fst (block (dense_rerun toy_ivf ''Who is Krishna?'') (fresh toy_start)),
       rerun_demo toy_ivf)"
    by (simp add: rerun_demo_def)
  note th = load_then_assert[OF c r m f st]
  show ?thesis
    apply (intro conjI)
           apply (rule c)
          apply (rule m)
         apply (rule f)
        apply (rule st)
       apply (simp add: d)
      apply (simp add: d)
     apply (simp add: d)
    apply (rule th)
    done
qed

section \<open>Saving the index\<close>

lemma embed_section_ok:
  assumes "block [dense_cell_24 lib, dense_cell_26 lib, dense_cell_28 lib] k = (Inr u, k')"
  obtains st d rt wr i re upd v where
    "trace k' = trace k @ [wr, i, re, upd]"
    and "globals k' ''sqlite_document_store'' = Some st"
    and "ev_fn wr = ''write_documents''" and "ev_args wr = [st, d]"
    and "ev_fn re = ''EmbeddingRetriever''"
    and "ev_kwargs re = [(''document_store'', st),
          (''embedding_model'', PStr ''sentence-transformers/multi-qa-mpnet-base-dot-v1'')]"
    and "ev_result re = Inr rt"
    and "ev_fn upd = ''update_embeddings''" and "ev_args upd = [st, rt]"
    and "ev_kwargs upd = []" and "ev_result upd = Inr v" and "ev_after upd = world k'"
    and "lib ''update_embeddings'' [st, rt] [] (ev_world upd) = (Inr v, world k')"
  using assms
  unfolding dense_cell_24_def dense_cell_26_def dense_cell_28_def embedding_retriever_def
  by (auto simp: unf split: option.splits)

lemma save_cell:
  assumes run: "dense_cell_30 lib k = (r, k')" and e: "e \<in> set (new_events k k')"
  obtains st where "globals k ''sqlite_document_store'' = Some st"
    and "new_events k k' = [e]" and "ev_fn e = ''save''"
    and "ev_args e = [st, PStr ''mahabharata_faiss'']" and "ev_kwargs e = []"
    and "ev_world e = world k"
proof (cases "globals k ''sqlite_document_store''")
  case None
  from run[symmetric] have "trace k' = trace k" by (simp add: dense_cell_30_def exec None)
  then show ?thesis using e by (simp add: new_events_def)
next
  case (Some st)
  obtain r1 w1 where l1: "lib ''save'' [st, PStr ''mahabharata_faiss''] [] (world k) = (r1, w1)"
    by fastforce
  let ?E = "\<lparr>ev_fn = ''save'', ev_args = [st, PStr ''mahabharata_faiss''], ev_kwargs = [],
      ev_world = world k, ev_result = r1, ev_after = w1\<rparr>"
  from run[symmetric] have "trace k' = trace k @ [?E]"
    by (cases r1) (simp_all add: dense_cell_30_def exec Some l1)
  then have ne: "new_events k k' = [?E]" by (simp add: new_events_def)
  then have "e = ?E" using e by simp
  then show ?thesis using that[of st] Some ne by simp
qed

lemma save_event:
  assumes cs: "cs = xs @ [dense_cell_24 lib, dense_cell_26 lib, dense_cell_28 lib] @
      [dense_cell_30 lib] @ ys"
    and xs: "\<forall>c\<in>set xs. avoids lib c {''save''}"
    and ys: "\<forall>c\<in>set ys. avoids lib c {''save''}"
    and run: "block cs k = (r, k')" and e: "e \<in> set (new_events k k')"
    and f: "ev_fn e = ''save''"
  shows "\<exists>pre wr mid upd post st d rt v.
     new_events k k' = pre @ wr # mid @ upd # e # post \<and>
     ev_fn wr = ''write_documents'' \<and> ev_args wr = [st, d] \<and>
     ev_fn upd = ''update_embeddings'' \<and> ev_args upd = [st, rt] \<and> ev_kwargs upd = [] \<and>
     ev_result upd = Inr v \<and>
     ev_args e = [st, PStr ''mahabharata_faiss''] \<and> ev_kwargs e = [] \<and>
     ev_world e = ev_after upd \<and>
     (embeds_all lib all_embedded \<longrightarrow> all_embedded st (ev_world e))"
proof -
  let ?em = "[dense_cell_24 lib, dense_cell_26 lib, dense_cell_28 lib]"
  have run': "block ((xs @ ?em) @ [dense_cell_30 lib] @ ys) k = (r, k')"
    using run by (simp add: cs)
  have em: "\<forall>c\<in>set ?em. avoids lib c {ev_fn e}"
    by (simp add: f, intro conjI; (rule avoidsI, rule cell_steps, simp))
  have xs': "\<forall>c\<in>set (xs @ ?em). avoids lib c {ev_fn e}"
    using xs em by (auto simp: f)
  have ys': "\<forall>c\<in>set ys. avoids lib c {ev_fn e}" using ys by (simp add: f)
  have ms: "\<forall>c\<in>set [dense_cell_30 lib]. avoids lib c {}"
    by (simp, (rule avoidsI, rule cell_steps, simp))
  show ?thesis
  proof (rule locate[OF run' xs' ms ys' e])
    fix k1 r1 k2 pre post
    assume pfx: "block (xs @ ?em) k = (Inr (), k1)"
      and sec: "block [dense_cell_30 lib] k1 = (r1, k2)"
      and e': "e \<in> set (new_events k1 k2)"
      and ne: "new_events k k' = pre @ new_events k1 k2 @ post"
      and tr: "trace k1 = trace k @ pre"
    from pfx obtain u ka where a: "block xs k = (Inr u, ka)" and b: "block ?em ka = (Inr (), k1)"
      by (auto simp: block_append[of xs])
    note ga = avoids_grows[OF avoids_block[OF xs] a]
    from sec have c30: "dense_cell_30 lib k1 = (r1, k2)" by (simp only: block_single)
    show ?thesis
    proof (rule embed_section_ok[OF b])
      fix st d rt wr i re upd v
      assume t1: "trace k1 = trace ka @ [wr, i, re, upd]"
        and st: "globals k1 ''sqlite_document_store'' = Some st"
        and wr: "ev_fn wr = ''write_documents''" "ev_args wr = [st, d]"
        and upd: "ev_fn upd = ''update_embeddings''" "ev_args upd = [st, rt]"
          "ev_kwargs upd = []" "ev_result upd = Inr v" "ev_after upd = world k1"
        and lib: "lib ''update_embeddings'' [st, rt] [] (ev_world upd) = (Inr v, world k1)"
      have pre: "pre = new_events k ka @ [wr, i, re, upd]"
        using tr t1 ga by simp
      show ?thesis
      proof (rule save_cell[OF c30 e'])
        fix st'
        assume s1: "globals k1 ''sqlite_document_store'' = Some st'"
          and s2: "new_events k1 k2 = [e]"
          and s3: "ev_args e = [st', PStr ''mahabharata_faiss'']" "ev_kwargs e = []"
            "ev_world e = world k1"
        have same: "st' = st" using s1 st by simp
        have 1: "new_events k k' = new_events k ka @ wr # [i, re] @ upd # e # post"
          using ne pre s2 by simp
        have 2: "embeds_all lib all_embedded \<longrightarrow> all_embedded st (ev_world e)"
          using lib s3(3) unfolding embeds_all_def by auto
        show ?thesis
          apply (rule exI[of _ "new_events k ka"], rule exI[of _ wr], rule exI[of _ "[i, re]"],
              rule exI[of _ upd], rule exI[of _ post], rule exI[of _ st], rule exI[of _ d],
              rule exI[of _ rt], rule exI[of _ v])
          apply (intro conjI)
                    apply (rule 1)
                   apply (rule wr(1))
                  apply (rule wr(2))
                 apply (rule upd(1))
                apply (rule upd(2))
               apply (rule upd(3))
              apply (rule upd(4))
             apply (simp add: s3(1) same)
            apply (rule s3(2))
           apply (simp add: s3(3) upd(5))
          apply (rule 2)
          done
      qed
    qed
  qed
qed

text \<open>
  C10. In every run of the dense notebook (all cells in order, or a first run), whenever
  \<^verbatim>\<open>save\<close> is called: \<^verbatim>\<open>write_documents\<close> was called before on the same store,
  \<^verbatim>\<open>update_embeddings(retriever)\<close> was then called on that store with no other argument
  (so over the whole store) and returned, and \<^verbatim>\<open>save("mahabharata_faiss")\<close> is the very
  next call, made in the world \<^verbatim>\<open>update_embeddings\<close> left. So whatever
  \<^verbatim>\<open>update_embeddings\<close> guarantees on return holds when the index is saved: for a
  library that embeds all, every Document written to the store has an embedding at that
  moment.
\<close>

theorem saved_after_update:
  assumes "cs \<in> {dense_cells lib q, dense_first_run lib q}"
    and "block cs k = (r, k')" and "e \<in> set (new_events k k')" and "ev_fn e = ''save''"
  shows "\<exists>pre wr mid upd post st d rt v.
     new_events k k' = pre @ wr # mid @ upd # e # post \<and>
     ev_fn wr = ''write_documents'' \<and> ev_args wr = [st, d] \<and>
     ev_fn upd = ''update_embeddings'' \<and> ev_args upd = [st, rt] \<and> ev_kwargs upd = [] \<and>
     ev_result upd = Inr v \<and>
     ev_args e = [st, PStr ''mahabharata_faiss''] \<and> ev_kwargs e = [] \<and>
     ev_world e = ev_after upd \<and>
     (embeds_all lib all_embedded \<longrightarrow> all_embedded st (ev_world e))"
proof -
  consider (a) "cs = dense_cells lib q" | (b) "cs = dense_first_run lib q" using assms(1) by auto
  then show ?thesis
  proof cases
    case a
    show ?thesis
    proof (rule save_event[OF _ _ _ assms(2-4)])
      show "cs = [dense_cell_5 lib, dense_cell_16 lib, dense_cell_18, dense_cell_20 lib,
          dense_cell_22 lib] @ [dense_cell_24 lib, dense_cell_26 lib, dense_cell_28 lib] @
          [dense_cell_30 lib] @ (dense_cell_32 lib # dense_query lib q)"
        by (simp add: a dense_cells_def dense_build_def)
      show "\<forall>c\<in>set [dense_cell_5 lib, dense_cell_16 lib, dense_cell_18, dense_cell_20 lib,
          dense_cell_22 lib]. avoids lib c {''save''}"
        by (simp, intro conjI; (rule avoidsI, rule cell_steps, simp))
      show "\<forall>c\<in>set (dense_cell_32 lib # dense_query lib q). avoids lib c {''save''}"
        unfolding dense_query_def
        by (simp, intro conjI; (rule avoidsI, rule cell_steps, simp))
    qed
  next
    case b
    show ?thesis
    proof (rule save_event[OF _ _ _ assms(2-4)])
      show "cs = [dense_cell_5 lib, dense_cell_16 lib, dense_cell_18, dense_cell_20 lib,
          dense_cell_22 lib] @ [dense_cell_24 lib, dense_cell_26 lib, dense_cell_28 lib] @
          [dense_cell_30 lib] @ dense_query lib q"
        by (simp add: b dense_first_run_def dense_build_def)
      show "\<forall>c\<in>set [dense_cell_5 lib, dense_cell_16 lib, dense_cell_18, dense_cell_20 lib,
          dense_cell_22 lib]. avoids lib c {''save''}"
        by (simp, intro conjI; (rule avoidsI, rule cell_steps, simp))
      show "\<forall>c\<in>set (dense_query lib q). avoids lib c {''save''}"
        unfolding dense_query_def
        by (simp, intro conjI; (rule avoidsI, rule cell_steps, simp))
    qed
  qed
qed

lemma toy_embeds_all: "embeds_all toy (\<lambda>s. embedded)"
  by (simp add: embeds_all_def toy_def)

theorem saved_after_update_witness:
  "dense_cells toy ''Who is Krishna?'' \<in>
     {dense_cells toy ''Who is Krishna?'', dense_first_run toy ''Who is Krishna?''} \<and>
   trace dense_demo ! 16 \<in> set (new_events (fresh toy_start) dense_demo) \<and>
   ev_fn (trace dense_demo ! 16) = ''save'' \<and>
   embeds_all toy (\<lambda>s. embedded) \<and>
   embedded (ev_world (trace dense_demo ! 16)) \<and>
   (\<exists>pre wr mid upd post st d rt v.
     new_events (fresh toy_start) dense_demo = pre @ wr # mid @ upd # (trace dense_demo ! 16) # post \<and>
     ev_fn wr = ''write_documents'' \<and> ev_args wr = [st, d] \<and>
     ev_fn upd = ''update_embeddings'' \<and> ev_args upd = [st, rt] \<and> ev_kwargs upd = [] \<and>
     ev_result upd = Inr v \<and>
     ev_args (trace dense_demo ! 16) = [st, PStr ''mahabharata_faiss''] \<and>
     ev_kwargs (trace dense_demo ! 16) = [] \<and>
     ev_world (trace dense_demo ! 16) = ev_after upd \<and>
     (embeds_all toy (\<lambda>s. embedded) \<longrightarrow> embedded (ev_world (trace dense_demo ! 16))))"
proof -
  have n: "map ev_fn (trace dense_demo) ! 16 = ''save''" "16 < length (map ev_fn (trace dense_demo))"
    by (simp_all add: dense_demo_names)
  have m: "trace dense_demo ! 16 \<in> set (new_events (fresh toy_start) dense_demo)"
    by (rule demo_event(1)[OF refl n(2)])
  have f: "ev_fn (trace dense_demo ! 16) = ''save''"
    using demo_event(2)[OF refl n(2)] n(1) by simp
  have c: "dense_cells toy ''Who is Krishna?'' \<in>
     {dense_cells toy ''Who is Krishna?'', dense_first_run toy ''Who is Krishna?''}"
    by simp
  note th = saved_after_update[OF c dense_demo_block m f, where all_embedded = "\<lambda>s. embedded"]
  show ?thesis
    apply (intro conjI)
         apply (rule c)
        apply (rule m)
       apply (rule f)
      apply (rule toy_embeds_all)
     apply (use th toy_embeds_all in blast)
    apply (rule th)
    done
qed

section \<open>Pre-processing before writing\<close>

text \<open>
  C6. No Document reaches a store before the text was pre-processed with explicit size and
  overlap parameters. In the dense notebook every call of \<open>write_documents\<close> comes right
  after \<open>PreProcessor(..., split_by="word", split_length=100,
  split_respect_sentence_boundary=True, split_overlap=0)\<close> and the call of its \<open>process\<close>,
  and what is written is the result of that \<open>process\<close>. The sparse notebook never calls
  \<open>write_documents\<close>; its only way into the store is \<open>run_batch\<close> of the indexing
  pipeline, which is built over the store with the pre-processor
  \<open>PreProcessor(..., split_by="word", split_overlap=50, split_length=500,
  split_respect_sentence_boundary=False)\<close> in the two calls right before it.
\<close>

theorem preprocessed_before_written:
  assumes "block cs k = (r, k')" and "e \<in> set (new_events k k')"
  shows "(cs \<in> {dense_cells lib q, dense_first_run lib q} \<and> ev_fn e = ''write_documents'' \<longrightarrow>
      (\<exists>pre pp pr post st p files d.
        new_events k k' = pre @ pp # pr # e # post \<and>
        ev_fn pp = ''PreProcessor'' \<and> ev_args pp = [] \<and>
        ev_kwargs pp =
         [(''clean_empty_lines'', PBool True), (''clean_whitespace'', PBool True),
          (''clean_header_footer'', PBool True), (''split_by'', PStr ''word''),
          (''split_length'', PInt 100), (''split_respect_sentence_boundary'', PBool True),
          (''split_overlap'', PInt 0)] \<and>
        ev_result pp = Inr p \<and>
        ev_fn pr = ''process'' \<and> ev_args pr = [p, files] \<and> ev_kwargs pr = [] \<and>
        ev_result pr = Inr d \<and>
        ev_args e = [st, d] \<and> ev_kwargs e = [])) \<and>
     (cs = sparse_cells lib q \<longrightarrow> ev_fn e \<noteq> ''write_documents'' \<and>
      (ev_fn e = ''run_batch'' \<longrightarrow>
      (\<exists>pre pp tp post st p ip.
        new_events k k' = pre @ pp # tp # e # post \<and>
        ev_fn pp = ''PreProcessor'' \<and> ev_args pp = [] \<and>
        ev_kwargs pp =
         [(''clean_empty_lines'', PBool True), (''clean_whitespace'', PBool True),
          (''clean_header_footer'', PBool False), (''split_by'', PStr ''word''),
          (''split_overlap'', PInt 50), (''split_length'', PInt 500),
          (''split_respect_sentence_boundary'', PBool False)] \<and>
        ev_result pp = Inr p \<and>
        ev_fn tp = ''TextIndexingPipeline'' \<and> ev_args tp = [st] \<and>
        ev_kwargs tp = [(''preprocessor'', p)] \<and> ev_result tp = Inr ip \<and>
        ev_args e = [ip])))"
proof (intro conjI impI)
  assume h: "cs \<in> {dense_cells lib q, dense_first_run lib q} \<and> ev_fn e = ''write_documents''"
  show "(\<exists>pre pp pr post st p files d.
        new_events k k' = pre @ pp # pr # e # post \<and>
        ev_fn pp = ''PreProcessor'' \<and> ev_args pp = [] \<and>
        ev_kwargs pp =
         [(''clean_empty_lines'', PBool True), (''clean_whitespace'', PBool True),
          (''clean_header_footer'', PBool True), (''split_by'', PStr ''word''),
          (''split_length'', PInt 100), (''split_respect_sentence_boundary'', PBool True),
          (''split_overlap'', PInt 0)] \<and>
        ev_result pp = Inr p \<and>
        ev_fn pr = ''process'' \<and> ev_args pr = [p, files] \<and> ev_kwargs pr = [] \<and>
        ev_result pr = Inr d \<and>
        ev_args e = [st, d] \<and> ev_kwargs e = [])"
  proof (rule dense_write_event[OF _ assms])
    show "cs \<in> {dense_cells lib q, dense_first_run lib q}" using h by simp
    show "ev_fn e = ''write_documents''" using h by simp
  next
    fix pre i1 cv i2 pp pr post files p d st
    assume 1: "new_events k k' = pre @ [i1, cv, i2, pp, pr, e] @ post"
      and pp: "ev_fn pp = ''PreProcessor''" "ev_args pp = []"
        "ev_kwargs pp = dense_preprocessor_kwargs" "ev_result pp = Inr p"
      and pr: "ev_fn pr = ''process''" "ev_args pr = [p, files]" "ev_kwargs pr = []"
        "ev_result pr = Inr d"
      and e: "ev_args e = [st, d]" "ev_kwargs e = []"
    show ?thesis
      apply (rule exI[of _ "pre @ [i1, cv, i2]"], rule exI[of _ pp], rule exI[of _ pr],
          rule exI[of _ post], rule exI[of _ st], rule exI[of _ p], rule exI[of _ files],
          rule exI[of _ d])
      using 1 pp pr e by (simp add: dense_preprocessor_kwargs_def)
  qed
next
  assume "cs = sparse_cells lib q"
  then show "ev_fn e \<noteq> ''write_documents''"
    using sparse_never_calls[OF _ _ assms(2), of "''write_documents''" lib q r] assms(1) by simp
next
  assume c: "cs = sparse_cells lib q" and f: "ev_fn e = ''run_batch''"
  show "(\<exists>pre pp tp post st p ip.
        new_events k k' = pre @ pp # tp # e # post \<and>
        ev_fn pp = ''PreProcessor'' \<and> ev_args pp = [] \<and>
        ev_kwargs pp =
         [(''clean_empty_lines'', PBool True), (''clean_whitespace'', PBool True),
          (''clean_header_footer'', PBool False), (''split_by'', PStr ''word''),
          (''split_overlap'', PInt 50), (''split_length'', PInt 500),
          (''split_respect_sentence_boundary'', PBool False)] \<and>
        ev_result pp = Inr p \<and>
        ev_fn tp = ''TextIndexingPipeline'' \<and> ev_args tp = [st] \<and>
        ev_kwargs tp = [(''preprocessor'', p)] \<and> ev_result tp = Inr ip \<and>
        ev_args e = [ip])"
  proof (rule sparse_index_event[OF assms(1)[unfolded c] assms(2) f])
    fix pre ds mid pp tp post st p ip
    assume 1: "new_events k k' = pre @ ds # mid @ [pp, tp, e] @ post"
      and pp: "ev_fn pp = ''PreProcessor''" "ev_args pp = []"
        "ev_kwargs pp = sparse_preprocessor_kwargs" "ev_result pp = Inr p"
      and tp: "ev_fn tp = ''TextIndexingPipeline''" "ev_args tp = [st]"
        "ev_kwargs tp = [(''preprocessor'', p)]" "ev_result tp = Inr ip"
      and e: "ev_args e = [ip]"
    show ?thesis
      apply (rule exI[of _ "pre @ ds # mid"], rule exI[of _ pp], rule exI[of _ tp],
          rule exI[of _ post], rule exI[of _ st], rule exI[of _ p], rule exI[of _ ip])
      using 1 pp tp e by (simp add: sparse_preprocessor_kwargs_def)
  qed
qed


theorem preprocessed_before_written_witness:
  "dense_cells toy ''Who is Krishna?'' \<in>
     {dense_cells toy ''Who is Krishna?'', dense_first_run toy ''Who is Krishna?''} \<and>
   trace dense_demo ! 12 \<in> set (new_events (fresh toy_start) dense_demo) \<and>
   ev_fn (trace dense_demo ! 12) = ''write_documents'' \<and>
   (\<exists>pre pp pr post st p files d.
        new_events (fresh toy_start) dense_demo = pre @ pp # pr # (trace dense_demo ! 12) # post \<and>
        ev_fn pp = ''PreProcessor'' \<and> ev_args pp = [] \<and>
        ev_kwargs pp =
         [(''clean_empty_lines'', PBool True), (''clean_whitespace'', PBool True),
          (''clean_header_footer'', PBool True), (''split_by'', PStr ''word''),
          (''split_length'', PInt 100), (''split_respect_sentence_boundary'', PBool True),
          (''split_overlap'', PInt 0)] \<and>
        ev_result pp = Inr p \<and>
        ev_fn pr = ''process'' \<and> ev_args pr = [p, files] \<and> ev_kwargs pr = [] \<and>
        ev_result pr = Inr d \<and>
        ev_args (trace dense_demo ! 12) = [st, d] \<and> ev_kwargs (trace dense_demo ! 12) = []) \<and>
   trace sparse_demo ! 11 \<in> set (new_events (fresh toy_start) sparse_demo) \<and>
   ev_fn (trace sparse_demo ! 11) = ''run_batch'' \<and>
   ev_fn (trace sparse_demo ! 11) \<noteq> ''write_documents'' \<and>
   (\<exists>pre pp tp post st p ip.
        new_events (fresh toy_start) sparse_demo = pre @ pp # tp # (trace sparse_demo ! 11) # post \<and>
        ev_fn pp = ''PreProcessor'' \<and> ev_args pp = [] \<and>
        ev_kwargs pp =
         [(''clean_empty_lines'', PBool True), (''clean_whitespace'', PBool True),
          (''clean_header_footer'', PBool False), (''split_by'', PStr ''word''),
          (''split_overlap'', PInt 50), (''split_length'', PInt 500),
          (''split_respect_sentence_boundary'', PBool False)] \<and>
        ev_result pp = Inr p \<and>
        ev_fn tp = ''TextIndexingPipeline'' \<and> ev_args tp = [st] \<and>
        ev_kwargs tp = [(''preprocessor'', p)] \<and> ev_result tp = Inr ip \<and>
        ev_args (trace sparse_demo ! 11) = [ip])"
proof -
  have n: "map ev_fn (trace dense_demo) ! 12 = ''write_documents''"
    "12 < length (map ev_fn (trace dense_demo))"
    by (simp_all add: dense_demo_names)
  have m: "trace dense_demo ! 12 \<in> set (new_events (fresh toy_start) dense_demo)"
    by (rule demo_event(1)[OF refl n(2)])
  have f: "ev_fn (trace dense_demo ! 12) = ''write_documents''"
    using demo_event(2)[OF refl n(2)] n(1) by simp
  have c: "dense_cells toy ''Who is Krishna?'' \<in>
     {dense_cells toy ''Who is Krishna?'', dense_first_run toy ''Who is Krishna?''}"
    by simp
  have n': "map ev_fn (trace sparse_demo) ! 11 = ''run_batch''"
    "11 < length (map ev_fn (trace sparse_demo))"
    by (simp_all add: sparse_demo_names)
  have m': "trace sparse_demo ! 11 \<in> set (new_events (fresh toy_start) sparse_demo)"
    by (rule demo_event(1)[OF refl n'(2)])
  have f': "ev_fn (trace sparse_demo ! 11) = ''run_batch''"
    using demo_event(2)[OF refl n'(2)] n'(1) by simp
  note d = preprocessed_before_written[OF dense_demo_block m, of toy "''Who is Krishna?''",
      THEN conjunct1, rule_format, OF conjI, OF c f]
  note s = preprocessed_before_written[OF sparse_demo_block m', of toy "''Who is Krishna?''",
      THEN conjunct2, rule_format, OF refl]
  show ?thesis
    apply (intro conjI)
           apply (rule c)
          apply (rule m)
         apply (rule f)
        apply (rule d)
       apply (rule m')
      apply (rule f')
     apply (rule s[THEN conjunct1])
    apply (rule s[THEN conjunct2, rule_format, OF f'])
    done
qed
section \<open>The corpus input\<close>











section \<open>The life of a Document\<close>



end
